theory Spec2Isabelle
  imports Complex_Main "HOL-Library.Word"
begin

section \<open>JavaScript values\<close>

text \<open>
  A JavaScript string is a sequence of UTF-16 code units; \<open>length\<close>, \<open>substring\<close>,
  \<open>match.index\<close> and the regular expression all count code units. Literals of the
  source are written through \<open>js\<close>.
\<close>

type_synonym code_unit = "16 word"
type_synonym jsstring = "code_unit list"

definition js :: "string \<Rightarrow> jsstring" where
  "js s = map (\<lambda>c. of_nat (of_char c)) s"

text \<open>
  Truthiness of a value that is either absent (\<open>undefined\<close>, \<open>null\<close>: \<open>None\<close>) or a
  string: the empty string is falsy, as \<open>!jobId\<close> and \<open>if (message)\<close> see it.
\<close>

fun truthy :: "jsstring option \<Rightarrow> bool" where
  "truthy None = False"
| "truthy (Some s) = (s \<noteq> [])"

text \<open>Number to string conversion of a non-negative integer (template literals).\<close>

fun decimal :: "nat \<Rightarrow> jsstring" where
  "decimal n = (if n < 10 then [of_nat (48 + n)] else decimal (n div 10) @ [of_nat (48 + n mod 10)])"

declare decimal.simps [simp del]

section \<open>The job store (server.js, lines 13--53)\<close>

text \<open>
  The functions modelled here and below are those of \<open>server.js\<close>; the job store and
  \<open>processMermaidDiagrams\<close> of \<open>deploy_pm2/server.js\<close> are the same text.

  \<open>jobs\<close> is a \<open>Map\<close> from job ids to job objects. Job objects are shared by reference
  (the registry, the closures of \<open>completeJob\<close> and of the SSE endpoint hold the same
  object), so the registry maps an id to an address and the objects live in \<open>heap\<close>.
  A subscriber is an HTTP response object, named by a number; \<open>job.subscribers\<close> is a
  \<open>Set\<close>, iterated in insertion order: a list without duplicates.

  Everything the server does to a response object is appended to \<open>wire\<close>:
  \<open>res.write('retry: 1500\n')\<close>, \<open>res.write(`data: ${JSON.stringify({progress, message})}\n\n`)\<close>
  (kept as the two values that are serialised) and \<open>res.end()\<close>. A write that throws is
  caught and ignored by the source, so \<open>wire\<close> is the sequence of attempted operations.

  \<open>setTimeout(f, d)\<close> appends the callback with its due time \<open>now + d\<close> to \<open>timers\<close>;
  the two closures of \<open>completeJob\<close> are the two constructors of \<open>callback\<close>, with the
  variables they capture.
\<close>

datatype job_status = Pending | Done

record job =
  progress :: int
  message :: jsstring
  subscribers :: "nat list"
  status :: job_status

datatype sse = Retry | Data int jsstring | End

datatype callback = CloseSubscribers nat jsstring | DeleteJob jsstring

record tracker =
  jobs :: "jsstring \<rightharpoonup> nat"
  heap :: "nat \<Rightarrow> job"
  next_ref :: nat
  wire :: "(nat \<times> sse) list"
  timers :: "(nat \<times> callback) list"
  now :: nat

definition initJob :: "jsstring option \<Rightarrow> tracker \<Rightarrow> nat option \<times> tracker" where
  "initJob jobId st =
    (if \<not> truthy jobId then (None, st)
     else (case jobs st (the jobId) of
             Some r \<Rightarrow> (Some r, st)
           | None \<Rightarrow>
               (let r = next_ref st
                in (Some r,
                    st\<lparr>heap := (heap st)(r := \<lparr>progress = 0, message = js ''Starting'',
                                               subscribers = [], status = Pending\<rparr>),
                       next_ref := Suc r,
                       jobs := (jobs st)(the jobId \<mapsto> r)\<rparr>))))"

text \<open>
  \<open>progress\<close> is a JavaScript number; the model takes a real, which covers every finite
  number (\<open>NaN\<close> is passed by no caller). \<open>Math.floor\<close>, \<open>Math.min\<close> and \<open>Math.max\<close>
  are exact on those.
\<close>

definition updateProgress :: "jsstring option \<Rightarrow> real \<Rightarrow> jsstring option \<Rightarrow> tracker \<Rightarrow> tracker" where
  "updateProgress jobId p msg st =
    (if \<not> truthy jobId then st
     else (case jobs st (the jobId) of
             None \<Rightarrow> st
           | Some r \<Rightarrow>
               (let job0 = heap st r;
                    job1 = job0\<lparr>progress := max 0 (min 100 \<lfloor>p\<rfloor>)\<rparr>;
                    job2 = (if truthy msg then job1\<lparr>message := the msg\<rparr> else job1);
                    payload = Data (progress job2) (message job2)
                in st\<lparr>heap := (heap st)(r := job2),
                      wire := wire st @ map (\<lambda>res. (res, payload)) (subscribers job2)\<rparr>)))"

definition completeJob :: "jsstring option \<Rightarrow> tracker \<Rightarrow> tracker" where
  "completeJob jobId st =
    (if \<not> truthy jobId then st
     else (case jobs st (the jobId) of
             None \<Rightarrow> st
           | Some r \<Rightarrow>
               (let st1 = st\<lparr>heap := (heap st)(r := (heap st r)\<lparr>status := Done\<rparr>)\<rparr>;
                    st2 = updateProgress jobId 100 (Some (js ''Done'')) st1
                in st2\<lparr>timers := timers st2 @ [(now st2 + 250, CloseSubscribers r (the jobId))]\<rparr>)))"

text \<open>The bodies of the two timer callbacks of \<open>completeJob\<close>.\<close>

fun run_callback :: "callback \<Rightarrow> tracker \<Rightarrow> tracker" where
  "run_callback (CloseSubscribers r jobId) st =
     st\<lparr>wire := wire st @ map (\<lambda>res. (res, End)) (subscribers (heap st r)),
        heap := (heap st)(r := (heap st r)\<lparr>subscribers := []\<rparr>),
        timers := timers st @ [(now st + 60000, DeleteJob jobId)]\<rparr>"
| "run_callback (DeleteJob jobId) st = st\<lparr>jobs := (jobs st)(jobId := None)\<rparr>"

text \<open>
  The event loop: time passes, and a pending timer runs once, not before it is due.
\<close>

definition advance :: "nat \<Rightarrow> tracker \<Rightarrow> tracker" where
  "advance d st = st\<lparr>now := now st + d\<rparr>"

definition fire :: "nat \<Rightarrow> tracker \<Rightarrow> tracker option" where
  "fire i st =
    (if i < length (timers st) \<and> fst (timers st ! i) \<le> now st
     then Some (run_callback (snd (timers st ! i))
                  (st\<lparr>timers := take i (timers st) @ drop (Suc i) (timers st)\<rparr>))
     else None)"

text \<open>
  The SSE endpoint \<open>GET /progress/:jobId\<close> for the response object \<open>res\<close>; the route
  parameter is a non-empty string.
\<close>

definition progress_endpoint :: "jsstring \<Rightarrow> nat \<Rightarrow> tracker \<Rightarrow> tracker" where
  "progress_endpoint jobId res st =
    (case initJob (Some jobId) st of
       (None, st1) \<Rightarrow> st1
     | (Some r, st1) \<Rightarrow>
         (let job0 = heap st1 r
          in st1\<lparr>wire := wire st1 @ [(res, Retry), (res, Data (progress job0) (message job0))],
                 heap := (heap st1)(r := job0\<lparr>subscribers :=
                           (if res \<in> set (subscribers job0) then subscribers job0
                            else subscribers job0 @ [res])\<rparr>)\<rparr>))"

definition empty_tracker :: tracker where
  "empty_tracker = \<lparr>jobs = Map.empty,
                    heap = (\<lambda>_. \<lparr>progress = 0, message = [], subscribers = [], status = Pending\<rparr>),
                    next_ref = 0, wire = [], timers = [], now = 0\<rparr>"

section \<open>Extraction of the diagrams (server.js, lines 152--162)\<close>

text \<open>
  \<open>String.prototype.trim\<close> removes the ECMAScript white space and line terminator
  code units from both ends.
\<close>

definition isWhiteSpace :: "code_unit \<Rightarrow> bool" where
  "isWhiteSpace c =
    (c \<in> set [0x09, 0x0A, 0x0B, 0x0C, 0x0D, 0x20, 0xA0, 0x1680, 0x2028, 0x2029, 0x202F,
               0x205F, 0x3000, 0xFEFF]
     \<or> (0x2000 \<le> c \<and> c \<le> 0x200A))"

definition trim :: "jsstring \<Rightarrow> jsstring" where
  "trim s = rev (dropWhile isWhiteSpace (rev (dropWhile isWhiteSpace s)))"

text \<open>
  The regular expression \<open>/```mermaid\n([\s\S]*?)```/g\<close>: the literal opening fence, a
  lazy run of arbitrary code units (the capture group), the literal closing fence.
\<close>

definition OPEN_FENCE :: jsstring where
  "OPEN_FENCE = js ''```mermaid'' @ [0x0A]"

definition CLOSE_FENCE :: jsstring where
  "CLOSE_FENCE = js ''```''"

fun starts_with :: "'a list \<Rightarrow> 'a list \<Rightarrow> bool" where
  "starts_with [] s = True"
| "starts_with (p # ps) [] = False"
| "starts_with (p # ps) (c # cs) = (p = c \<and> starts_with ps cs)"

text \<open>
  The lazy group followed by the closing fence: the matcher extends the capture one
  code unit at a time and stops at the first place where the closing fence follows.
  The result is the length of the capture.
\<close>

fun find_close :: "jsstring \<Rightarrow> nat option" where
  "find_close [] = None"
| "find_close (c # cs) =
     (if starts_with CLOSE_FENCE (c # cs) then Some 0 else map_option Suc (find_close cs))"

text \<open>An attempt at the start of \<open>s\<close>: the length of the whole match.\<close>

definition match_here :: "jsstring \<Rightarrow> nat option" where
  "match_here s =
    (if starts_with OPEN_FENCE s
     then map_option (\<lambda>q. length OPEN_FENCE + q + length CLOSE_FENCE)
            (find_close (drop (length OPEN_FENCE) s))
     else None)"

text \<open>
  The matcher tries every start position from left to right: the offset and the length
  of the leftmost match.
\<close>

fun search :: "jsstring \<Rightarrow> (nat \<times> nat) option" where
  "search [] = None"
| "search (c # cs) =
     (case match_here (c # cs) of
        Some n \<Rightarrow> Some (0, n)
      | None \<Rightarrow> map_option (\<lambda>(k, n). (Suc k, n)) (search cs))"

text \<open>
  \<open>mermaidRegex.exec(markdownContent)\<close> with the \<open>g\<close> flag starts at \<open>lastIndex\<close>;
  it returns \<open>match.index\<close>, \<open>match[0]\<close>, \<open>match[1]\<close> and the new \<open>lastIndex\<close>,
  or \<open>null\<close>.
\<close>

record regex_match =
  m_index :: nat
  m_0 :: jsstring
  m_1 :: jsstring

definition exec :: "jsstring \<Rightarrow> nat \<Rightarrow> (regex_match \<times> nat) option" where
  "exec s lastIndex =
    (if length s < lastIndex then None
     else (case search (drop lastIndex s) of
             None \<Rightarrow> None
           | Some (k, n) \<Rightarrow>
               Some (\<lparr>m_index = lastIndex + k,
                      m_0 = take n (drop (lastIndex + k) s),
                      m_1 = take (n - length OPEN_FENCE - length CLOSE_FENCE)
                              (drop (lastIndex + k + length OPEN_FENCE) s)\<rparr>,
                     lastIndex + k + n)))"

record diagram =
  original :: jsstring
  code :: jsstring
  index :: nat

text \<open>
  The \<open>while ((match = mermaidRegex.exec(markdownContent)) !== null)\<close> loop. The
  regular expression object carries \<open>lastIndex\<close> from one call to the next.
\<close>

function extract_loop :: "jsstring \<Rightarrow> nat \<Rightarrow> diagram list \<Rightarrow> diagram list" where
  "extract_loop markdownContent lastIndex diagrams =
    (case exec markdownContent lastIndex of
       None \<Rightarrow> diagrams
     | Some (match, lastIndex') \<Rightarrow>
         extract_loop markdownContent lastIndex'
           (diagrams @ [\<lparr>original = m_0 match, code = trim (m_1 match), index = m_index match\<rparr>]))"
  by pat_completeness auto

definition extract_diagrams :: "jsstring \<Rightarrow> diagram list" where
  "extract_diagrams markdownContent = extract_loop markdownContent 0 []"

section \<open>Rendering and rewriting (server.js, lines 110--197)\<close>

text \<open>
  \<open>renderMermaidToImage\<close> drives a headless browser: an external effect that returns
  the base64 text of a screenshot or throws. The loop below calls it once for each
  diagram, so its answers are given as a function of the diagram's number \<open>i\<close> and the
  code passed: any assignment of success and failure to the calls is such a function.
\<close>

datatype error = Error jsstring

type_synonym renderer = "nat \<Rightarrow> jsstring \<Rightarrow> error + jsstring"

record opts =
  o_jobId :: "jsstring option"
  o_start :: int
  o_end :: int

definition default_opts :: opts where
  "default_opts = \<lparr>o_jobId = None, o_start = 5, o_end = 60\<rparr>"

definition imageTag :: "jsstring \<Rightarrow> jsstring" where
  "imageTag imageBase64 = js ''![Mermaid Diagram](data:image/png;base64,'' @ imageBase64 @ js '')''"

definition rendered_message :: "nat \<Rightarrow> nat \<Rightarrow> jsstring" where
  "rendered_message k n = js ''Rendered diagram '' @ decimal k @ js ''/'' @ decimal n"

text \<open>
  The \<open>for (let i = diagrams.length - 1; i >= 0; i--)\<close> loop; the counter of the
  recursion is \<open>i + 1\<close>. \<open>substring(0, n)\<close> and \<open>substring(n)\<close> clamp \<open>n\<close> to the
  length of the string, as \<open>take\<close> and \<open>drop\<close> do. The \<open>catch\<close> block logs and goes on
  with the next diagram.
\<close>

fun render_loop ::
  "renderer \<Rightarrow> diagram list \<Rightarrow> jsstring option \<Rightarrow> int \<Rightarrow> int \<Rightarrow> nat
     \<Rightarrow> jsstring \<times> tracker \<Rightarrow> jsstring \<times> tracker" where
  "render_loop render diagrams jobId start endp 0 (processedContent, st) = (processedContent, st)"
| "render_loop render diagrams jobId start endp (Suc i) (processedContent, st) =
    (let diagram = diagrams ! i;
         total' = length diagrams;
         span = max 0 (endp - start)
     in (case render i (code diagram) of
           Inl err \<Rightarrow> render_loop render diagrams jobId start endp i (processedContent, st)
         | Inr imageBase64 \<Rightarrow>
             (let processedContent' =
                    take (index diagram) processedContent @ imageTag imageBase64
                    @ drop (index diagram + length (original diagram)) processedContent;
                  current = start + \<lfloor>real_of_int (span * int (total' - i)) / real total'\<rfloor>;
                  st' = (if total' > 0
                         then updateProgress jobId (real_of_int (min current endp))
                                (Some (rendered_message (total' - i) total')) st
                         else st)
              in render_loop render diagrams jobId start endp i (processedContent', st'))))"

definition processMermaidDiagrams ::
  "renderer \<Rightarrow> jsstring \<Rightarrow> jsstring \<Rightarrow> opts \<Rightarrow> tracker \<Rightarrow> (error + jsstring) \<times> tracker" where
  "processMermaidDiagrams render markdownContent format opts st =
    (let diagrams = extract_diagrams markdownContent
     in if format = js ''html''
        then (Inr markdownContent,
              updateProgress (o_jobId opts) (real_of_int (o_start opts))
                (Some (js ''Parsing markdown'')) st)
        else (case render_loop render diagrams (o_jobId opts) (o_start opts) (o_end opts)
                     (length diagrams) (markdownContent, st) of
                (processedContent, st') \<Rightarrow> (Inr processedContent, st')))"

section \<open>The converters and the upload endpoint (server.js, lines 199--535)\<close>

text \<open>
  The collaborators the converters call, each of which may throw: the Markdown parser,
  the headless browser and the DOCX builder, and the read of the uploaded file. The page
  templates and the layout options only shape the text handed to them and are kept as
  functions of the file name and the HTML.
\<close>

record collaborators =
  renderMermaidToImage :: renderer
  fs_readFile :: "error + jsstring"
  path_basename :: "jsstring \<Rightarrow> jsstring"
  marked :: "jsstring \<Rightarrow> error + jsstring"
  template :: "jsstring \<Rightarrow> jsstring \<Rightarrow> jsstring \<Rightarrow> jsstring"
  puppeteer_launch :: "error option"
  page_setContent :: "jsstring \<Rightarrow> error option"
  page_pdf :: "jsstring \<Rightarrow> error + jsstring"
  browser_close :: "error option"
  HTMLtoDOCX :: "jsstring \<Rightarrow> error + jsstring"

definition convertToHTML ::
  "collaborators \<Rightarrow> jsstring \<Rightarrow> jsstring \<Rightarrow> jsstring option \<Rightarrow> tracker
     \<Rightarrow> (error + jsstring) \<times> tracker" where
  "convertToHTML env markdownContent filename jobId st =
    (let st1 = updateProgress jobId 1 (Some (js ''Starting'')) st
     in (case processMermaidDiagrams (renderMermaidToImage env) markdownContent (js ''html'')
               \<lparr>o_jobId = jobId, o_start = 5, o_end = 40\<rparr> st1 of
           (Inl e, st2) \<Rightarrow> (Inl e, st2)
         | (Inr processedContent, st2) \<Rightarrow>
             (case marked env processedContent of
                Inl e \<Rightarrow> (Inl e, st2)
              | Inr htmlContent \<Rightarrow>
                  (let st3 = updateProgress jobId 80 (Some (js ''Generating HTML'')) st2;
                       fullHTML = template env (js ''html'') filename htmlContent;
                       st4 = updateProgress jobId 95 (Some (js ''Finalizing'')) st3
                   in (Inr fullHTML, st4)))))"

definition convertToPDF ::
  "collaborators \<Rightarrow> jsstring \<Rightarrow> jsstring \<Rightarrow> jsstring option \<Rightarrow> tracker
     \<Rightarrow> (error + jsstring) \<times> tracker" where
  "convertToPDF env markdownContent filename jobId st =
    (let st1 = updateProgress jobId 1 (Some (js ''Starting'')) st
     in (case processMermaidDiagrams (renderMermaidToImage env) markdownContent (js ''pdf'')
               \<lparr>o_jobId = jobId, o_start = 5, o_end = 60\<rparr> st1 of
           (Inl e, st2) \<Rightarrow> (Inl e, st2)
         | (Inr processedContent, st2) \<Rightarrow>
             (case marked env processedContent of
                Inl e \<Rightarrow> (Inl e, st2)
              | Inr htmlContent \<Rightarrow>
                  (let st3 = updateProgress jobId 70 (Some (js ''Preparing PDF'')) st2;
                       fullHTML = template env (js ''pdf'') filename htmlContent
                   in (case puppeteer_launch env of
                         Some e \<Rightarrow> (Inl e, st3)
                       | None \<Rightarrow>
                           (let (r, st') =
                                  (case page_setContent env fullHTML of
                                     Some e \<Rightarrow> (Inl e, st3)
                                   | None \<Rightarrow>
                                       (let st4 = updateProgress jobId 85 (Some (js ''Rendering PDF'')) st3
                                        in (case page_pdf env fullHTML of
                                              Inl e \<Rightarrow> (Inl e, st4)
                                            | Inr pdfBuffer \<Rightarrow>
                                                (Inr pdfBuffer,
                                                 updateProgress jobId 95 (Some (js ''Finalizing'')) st4))))
                            in (case browser_close env of
                                  Some e \<Rightarrow> (Inl e, st')
                                | None \<Rightarrow> (r, st'))))))))"

definition convertToDOCX ::
  "collaborators \<Rightarrow> jsstring \<Rightarrow> jsstring \<Rightarrow> jsstring option \<Rightarrow> tracker
     \<Rightarrow> (error + jsstring) \<times> tracker" where
  "convertToDOCX env markdownContent filename jobId st =
    (let st1 = updateProgress jobId 1 (Some (js ''Starting'')) st
     in (case processMermaidDiagrams (renderMermaidToImage env) markdownContent (js ''docx'')
               \<lparr>o_jobId = jobId, o_start = 5, o_end = 60\<rparr> st1 of
           (Inl e, st2) \<Rightarrow> (Inl e, st2)
         | (Inr processedContent, st2) \<Rightarrow>
             (case marked env processedContent of
                Inl e \<Rightarrow> (Inl e, st2)
              | Inr htmlContent \<Rightarrow>
                  (let st3 = updateProgress jobId 70 (Some (js ''Preparing DOCX'')) st2;
                       fullHTML = template env (js ''docx'') filename htmlContent
                   in (case HTMLtoDOCX env fullHTML of
                         Inl e \<Rightarrow> (Inl e, st3)
                       | Inr docxBuffer \<Rightarrow>
                           (Inr docxBuffer,
                            updateProgress jobId 95 (Some (js ''Finalizing'')) st3))))))"

text \<open>
  \<open>POST /convert\<close>. Of the request, the uploaded file (its original name), and the
  \<open>format\<close> and \<open>jobId\<close> fields of the body, each a string or absent. The response is
  a JSON error with its status code, or the converted file.
\<close>

record request =
  req_file :: "jsstring option"
  req_format :: "jsstring option"
  req_jobId :: "jsstring option"

datatype response = Json nat jsstring | Sent jsstring jsstring jsstring

definition error_message :: "error \<Rightarrow> jsstring" where
  "error_message e = (case e of Error m \<Rightarrow> m)"

text \<open>The statements of the \<open>try\<close> block after the format check, up to \<open>res.send\<close>.\<close>

definition convert_pipeline ::
  "collaborators \<Rightarrow> jsstring \<Rightarrow> jsstring \<Rightarrow> jsstring option \<Rightarrow> tracker
     \<Rightarrow> (error + response) \<times> tracker" where
  "convert_pipeline env originalname format jobId st =
    (case fs_readFile env of
       Inl e \<Rightarrow> (Inl e, st)
     | Inr markdownContent \<Rightarrow>
         (let st1 = updateProgress jobId 5 (Some (js ''Reading file'')) st;
              baseFilename = path_basename env originalname;
              (result, contentType, fileExtension, st2) =
                (if format = js ''html''
                 then (case convertToHTML env markdownContent baseFilename jobId st1 of
                         (r, s) \<Rightarrow> (r, js ''text/html'', js ''html'', s))
                 else if format = js ''pdf''
                 then (case convertToPDF env markdownContent baseFilename jobId st1 of
                         (r, s) \<Rightarrow> (r, js ''application/pdf'', js ''pdf'', s))
                 else (case convertToDOCX env markdownContent baseFilename jobId st1 of
                         (r, s) \<Rightarrow>
                           (r, js ''application/vnd.openxmlformats-officedocument.wordprocessingml.document'',
                            js ''docx'', s)))
          in (case result of
                Inl e \<Rightarrow> (Inl e, st2)
              | Inr bytes \<Rightarrow>
                  (Inr (Sent contentType (baseFilename @ js ''.'' @ fileExtension) bytes), st2))))"

definition convert_endpoint :: "collaborators \<Rightarrow> request \<Rightarrow> tracker \<Rightarrow> response \<times> tracker" where
  "convert_endpoint env req st =
    (case req_file req of
       None \<Rightarrow> (Json 400 (js ''No file uploaded''), st)
     | Some originalname \<Rightarrow>
         (let jobId = (if truthy (req_jobId req) then req_jobId req else None);
              st1 = (if truthy jobId
                     then updateProgress jobId 1 (Some (js ''Upload received''))
                            (snd (initJob jobId st))
                     else st)
          in if req_format req \<notin> set [Some (js ''html''), Some (js ''pdf''), Some (js ''docx'')]
             then (Json 400 (js ''Invalid format''), st1)
             else (case convert_pipeline env originalname (the (req_format req)) jobId st1 of
                     (Inr sent, st2) \<Rightarrow> (sent, completeJob jobId st2)
                   | (Inl e, st2) \<Rightarrow>
                       (Json 500 (js ''Conversion failed: '' @ error_message e),
                        updateProgress (req_jobId req) 100 (Some (js ''Error'')) st2))))"

section \<open>Example states\<close>

text \<open>Two clients have opened the progress channel of job \<open>j1\<close>.\<close>

definition two_subscribers :: tracker where
  "two_subscribers = progress_endpoint (js ''j1'') 8 (progress_endpoint (js ''j1'') 7 empty_tracker)"

section \<open>Documents with fenced blocks, as the specification describes them\<close>

text \<open>
  \<open>occurs_in pat s\<close>: the text \<open>pat\<close> occurs somewhere in \<open>s\<close>.
  \<open>complete_fence_in s\<close>: some opening fence in \<open>s\<close> is followed, after its own end, by
  a closing fence.
\<close>

fun occurs_in :: "'a list \<Rightarrow> 'a list \<Rightarrow> bool" where
  "occurs_in pat [] = (pat = [])"
| "occurs_in pat (c # cs) = (starts_with pat (c # cs) \<or> occurs_in pat cs)"

fun complete_fence_in :: "jsstring \<Rightarrow> bool" where
  "complete_fence_in [] = False"
| "complete_fence_in (c # cs) =
     ((starts_with OPEN_FENCE (c # cs) \<and> occurs_in CLOSE_FENCE (drop (length OPEN_FENCE) (c # cs)))
      \<or> complete_fence_in cs)"

text \<open>
  A document with the fenced blocks \<open>blocks\<close>: each block is given by the text before
  it and its interior; \<open>rest\<close> is the text after the last block. \<open>expected pos blocks\<close>
  are the occurrences the specification promises for it, the document starting at offset
  \<open>pos\<close>.
\<close>

fun doc_of :: "(jsstring \<times> jsstring) list \<Rightarrow> jsstring \<Rightarrow> jsstring" where
  "doc_of [] rest = rest"
| "doc_of ((gap, interior) # blocks) rest =
     gap @ OPEN_FENCE @ interior @ CLOSE_FENCE @ doc_of blocks rest"

fun expected :: "nat \<Rightarrow> (jsstring \<times> jsstring) list \<Rightarrow> diagram list" where
  "expected pos [] = []"
| "expected pos ((gap, interior) # blocks) =
     \<lparr>original = OPEN_FENCE @ interior @ CLOSE_FENCE, code = trim interior,
      index = pos + length gap\<rparr>
     # expected (pos + length gap + length OPEN_FENCE + length interior + length CLOSE_FENCE) blocks"

text \<open>
  A document with two complete fenced blocks and, after them, an opening fence that is
  never closed.
\<close>

definition example_blocks :: "(jsstring \<times> jsstring) list" where
  "example_blocks = [(js ''A '', js ''X'' @ [0x0A]), (js '' B '', js '' Y'' @ [0x0A])]"

definition example_rest :: jsstring where
  "example_rest = js '' C ```mermaid'' @ [0x0A] @ js ''Z''"

section \<open>The rewritten document, as the specification describes it\<close>

text \<open>
  \<open>rewritten md lo hi spans\<close> is the part of \<open>md\<close> between the offsets \<open>lo\<close> and \<open>hi\<close> in
  which each span (start, length, replacement) is replaced when it has a replacement and
  copied from \<open>md\<close> when it has none; the text between the spans is copied from \<open>md\<close>.
  \<open>outcomes\<close> are the spans of the diagrams with the image reference of each diagram
  whose render succeeded.
\<close>

fun rewritten :: "jsstring \<Rightarrow> nat \<Rightarrow> nat \<Rightarrow> (nat \<times> nat \<times> jsstring option) list \<Rightarrow> jsstring" where
  "rewritten md lo hi [] = take (hi - lo) (drop lo md)"
| "rewritten md lo hi ((s, n, r) # spans) =
     take (s - lo) (drop lo md)
     @ (case r of None \<Rightarrow> take n (drop s md) | Some t \<Rightarrow> t)
     @ rewritten md (s + n) hi spans"

definition outcome :: "renderer \<Rightarrow> diagram list \<Rightarrow> nat \<Rightarrow> nat \<times> nat \<times> jsstring option" where
  "outcome render ds i =
     (index (ds ! i), length (original (ds ! i)),
      (case render i (code (ds ! i)) of Inl e \<Rightarrow> None | Inr img \<Rightarrow> Some (imageTag img)))"

definition outcomes :: "renderer \<Rightarrow> diagram list \<Rightarrow> (nat \<times> nat \<times> jsstring option) list" where
  "outcomes render ds = map (outcome render ds) [0..<length ds]"

text \<open>
  The spans of a list of occurrences lie inside the document, in ascending order and
  without overlap, and each \<open>original\<close> is the text of its span. \<open>prev_end i ds\<close> is where the
  span before the \<open>i\<close>-th ends.
\<close>

text \<open>
  The text component of the rewriting loop alone (\<open>render_loop_split\<close> below).
\<close>

fun render_content :: "renderer \<Rightarrow> diagram list \<Rightarrow> nat \<Rightarrow> jsstring \<Rightarrow> jsstring" where
  "render_content render ds 0 c = c"
| "render_content render ds (Suc i) c =
     (case render i (code (ds ! i)) of
        Inl e \<Rightarrow> render_content render ds i c
      | Inr img \<Rightarrow>
          render_content render ds i
            (take (index (ds ! i)) c @ imageTag img
             @ drop (index (ds ! i) + length (original (ds ! i))) c))"

definition prev_end :: "nat \<Rightarrow> diagram list \<Rightarrow> nat" where
  "prev_end i ds = (if i = 0 then 0 else index (ds ! (i - 1)) + length (original (ds ! (i - 1))))"

definition spans_ok :: "jsstring \<Rightarrow> diagram list \<Rightarrow> bool" where
  "spans_ok md ds \<longleftrightarrow>
     (\<forall>i<length ds. prev_end i ds \<le> index (ds ! i)
        \<and> index (ds ! i) + length (original (ds ! i)) \<le> length md
        \<and> original (ds ! i) = take (length (original (ds ! i))) (drop (index (ds ! i)) md))"

text \<open>
  The progress value of the specification after \<open>k\<close> of \<open>n\<close> diagrams, for the range
  from \<open>start\<close> to \<open>endp\<close>, and the updates the rendering phase issues: one for each
  diagram whose render succeeded, last diagram first, where \<open>k\<close> counts the diagrams
  the loop has gone through, the failed ones too.
\<close>

definition progress_after :: "int \<Rightarrow> int \<Rightarrow> nat \<Rightarrow> nat \<Rightarrow> int" where
  "progress_after start endp k n =
     min (start + \<lfloor>real_of_int ((endp - start) * int k) / real n\<rfloor>) endp"

definition succeeded :: "renderer \<Rightarrow> diagram list \<Rightarrow> nat \<Rightarrow> bool" where
  "succeeded render ds i = (case render i (code (ds ! i)) of Inl e \<Rightarrow> False | Inr img \<Rightarrow> True)"

definition progress_updates :: "renderer \<Rightarrow> diagram list \<Rightarrow> int \<Rightarrow> int \<Rightarrow> nat \<Rightarrow> (int \<times> jsstring) list" where
  "progress_updates render ds start endp k =
     map (\<lambda>i. (progress_after start endp (length ds - i) (length ds),
                rendered_message (length ds - i) (length ds)))
         (filter (succeeded render ds) (rev [0..<k]))"

definition apply_updates :: "jsstring option \<Rightarrow> (int \<times> jsstring) list \<Rightarrow> tracker \<Rightarrow> tracker" where
  "apply_updates jobId us st =
     foldl (\<lambda>s (p, m). updateProgress jobId (real_of_int p) (Some m) s) st us"

text \<open>The number of diagrams rendered when the loop has dealt with diagram \<open>i\<close>.\<close>

definition rendered_so_far :: "renderer \<Rightarrow> diagram list \<Rightarrow> nat \<Rightarrow> nat" where
  "rendered_so_far render ds i = length (filter (succeeded render ds) [i..<length ds])"

text \<open>
  Documents and renderers for the examples: the two-diagram document of the
  specification's scenario, a document that is two fences and nothing else, renderers
  that fail for one diagram or for none, and a job with one subscriber.
\<close>

definition scenario :: jsstring where
  "scenario = js ''A ```mermaid'' @ [0x0A] @ js ''X'' @ [0x0A] @ js ''``` B ```mermaid'' @ [0x0A]
               @ js ''Y'' @ [0x0A] @ js ''``` C''"

definition two_fences :: jsstring where
  "two_fences = OPEN_FENCE @ js ''X'' @ CLOSE_FENCE @ OPEN_FENCE @ js ''Y'' @ CLOSE_FENCE"

definition fails_first :: renderer where
  "fails_first i c = (if i = 0 then Inl (Error (js ''timeout'')) else Inr (js ''AAAA''))"

definition fails_second :: renderer where
  "fails_second i c = (if i = 1 then Inl (Error (js ''timeout'')) else Inr (js ''AAAA''))"

definition renders_all :: renderer where
  "renders_all i c = Inr (js ''AAAA'')"

definition one_subscriber :: tracker where
  "one_subscriber = progress_endpoint (js ''j1'') 7 empty_tracker"

section \<open>States that differ by progress updates only\<close>

text \<open>
  \<open>closes w\<close> are the \<open>res.end()\<close> calls on the wire. \<open>quiet st st'\<close>: from \<open>st\<close> to
  \<open>st'\<close> no job was created or deleted, no timer was set, no status and no subscriber
  set changed, and the wire was only extended, by writes that close no channel.
\<close>

definition closes :: "(nat \<times> sse) list \<Rightarrow> (nat \<times> sse) list" where
  "closes w = filter (\<lambda>(res, ev). ev = End) w"

definition quiet :: "tracker \<Rightarrow> tracker \<Rightarrow> bool" where
  "quiet st st' \<longleftrightarrow>
     jobs st' = jobs st \<and> timers st' = timers st \<and> next_ref st' = next_ref st
     \<and> (\<lambda>r. status (heap st' r)) = (\<lambda>r. status (heap st r))
     \<and> (\<lambda>r. subscribers (heap st' r)) = (\<lambda>r. subscribers (heap st r))
     \<and> (\<exists>evs. wire st' = wire st @ evs \<and> closes evs = [])"

text \<open>
  What the event loop does when no request arrives: time passes (\<open>Elapse\<close>), or the
  pending timer number \<open>i\<close> runs if it is due (\<open>Run\<close>; nothing happens otherwise).
\<close>

datatype loop_event = Elapse nat | Run nat

fun loop_step :: "loop_event \<Rightarrow> tracker \<Rightarrow> tracker" where
  "loop_step (Elapse d) st = advance d st"
| "loop_step (Run i) st = (case fire i st of None \<Rightarrow> st | Some st' \<Rightarrow> st')"

fun event_loop :: "loop_event list \<Rightarrow> tracker \<Rightarrow> tracker" where
  "event_loop [] st = st"
| "event_loop (e # es) st = event_loop es (loop_step e st)"

text \<open>
  A pending callback spares the job object \<open>r\<close> registered under \<open>jid\<close>: it neither
  closes the subscribers of \<open>r\<close> (or a channel that is also a subscriber of \<open>r\<close>), nor
  deletes \<open>jid\<close>, nor will schedule the deletion of \<open>jid\<close>.
\<close>

fun spares :: "nat \<Rightarrow> jsstring \<Rightarrow> tracker \<Rightarrow> callback \<Rightarrow> bool" where
  "spares r jid st (CloseSubscribers r' jid') =
     (r' \<noteq> r \<and> jid' \<noteq> jid
      \<and> set (subscribers (heap st r')) \<inter> set (subscribers (heap st r)) = {})"
| "spares r jid st (DeleteJob jid') = (jid' \<noteq> jid)"

text \<open>A failing collaborator and requests for the examples.\<close>

definition failing_parser :: collaborators where
  "failing_parser =
     \<lparr>renderMermaidToImage = renders_all,
      fs_readFile = Inr (js ''# Title''),
      path_basename = (\<lambda>n. n),
      marked = (\<lambda>t. Inl (Error (js ''parse error''))),
      template = (\<lambda>f n h. h),
      puppeteer_launch = None,
      page_setContent = (\<lambda>h. None),
      page_pdf = (\<lambda>h. Inr h),
      browser_close = None,
      HTMLtoDOCX = (\<lambda>h. Inr h)\<rparr>"

definition pdf_request :: request where
  "pdf_request = \<lparr>req_file = Some (js ''a.md''), req_format = Some (js ''pdf''),
                   req_jobId = Some (js ''j1'')\<rparr>"

definition txt_request :: request where
  "txt_request = \<lparr>req_file = Some (js ''a.md''), req_format = Some (js ''txt''),
                   req_jobId = Some (js ''j1'')\<rparr>"

section \<open>The matcher stays inside the text and moves forward\<close>

lemma length_OPEN_FENCE: "length OPEN_FENCE = 11"
  by (simp add: OPEN_FENCE_def js_def)

lemma length_CLOSE_FENCE: "length CLOSE_FENCE = 3"
  by (simp add: CLOSE_FENCE_def js_def)

lemma starts_with_iff: "starts_with p s \<longleftrightarrow> take (length p) s = p"
  by (induction p s rule: starts_with.induct) auto

lemma starts_with_length: "starts_with p s \<Longrightarrow> length p \<le> length s"
  by (induction p s rule: starts_with.induct) auto

lemma find_close_bound: "find_close s = Some q \<Longrightarrow> q + length CLOSE_FENCE \<le> length s"
proof (induction s arbitrary: q)
  case Nil
  then show ?case by simp
next
  case (Cons c cs)
  show ?case
  proof (cases "starts_with CLOSE_FENCE (c # cs)")
    case True
    then have "length CLOSE_FENCE \<le> length (c # cs)"
      by (rule starts_with_length)
    with True Cons.prems show ?thesis by simp
  next
    case False
    with Cons show ?thesis by auto
  qed
qed

lemma match_here_bound:
  "match_here s = Some n \<Longrightarrow> length OPEN_FENCE + length CLOSE_FENCE \<le> n \<and> n \<le> length s"
  by (auto simp: match_here_def split: if_splits dest!: find_close_bound starts_with_length)

lemma search_bound:
  "search s = Some (k, n) \<Longrightarrow> length OPEN_FENCE + length CLOSE_FENCE \<le> n \<and> k + n \<le> length s"
proof (induction s arbitrary: k)
  case Nil
  then show ?case by simp
next
  case (Cons c cs)
  then show ?case
    by (auto split: option.splits dest: match_here_bound)
qed

lemma exec_bound: "exec s i = Some (m, j) \<Longrightarrow> i < j \<and> j \<le> length s"
  by (auto simp: exec_def length_OPEN_FENCE split: if_splits option.splits dest!: search_bound)

text \<open>Every match is at least fourteen code units long, so the extraction loop ends.\<close>

termination extract_loop
  by (relation "measure (\<lambda>(s, i, ds). length s - i)") (auto dest!: exec_bound)

declare extract_loop.simps [simp del]

section \<open>The HTML target\<close>

text \<open>
  Claim C9. For the format \<open>html\<close>, \<open>processMermaidDiagrams\<close> returns its input text
  unchanged, whatever the document, the renderer and the options are: the renderer is
  not consulted and the only effect is the progress update \<open>Parsing markdown\<close>.
\<close>

theorem html_passthrough:
  "processMermaidDiagrams render markdownContent (js ''html'') opts st =
     (Inr markdownContent,
      updateProgress (o_jobId opts) (real_of_int (o_start opts)) (Some (js ''Parsing markdown'')) st)"
  by (simp add: processMermaidDiagrams_def Let_def)

section \<open>The progress tracker\<close>

lemma updateProgress_existing:
  assumes "jobs st jid = Some r" and "jid \<noteq> []"
  shows "updateProgress (Some jid) p msg st =
     st\<lparr>heap := (heap st)(r := (heap st r)\<lparr>progress := max 0 (min 100 \<lfloor>p\<rfloor>),
                                           message := (if truthy msg then the msg else message (heap st r))\<rparr>),
        wire := wire st @ map (\<lambda>res. (res, Data (max 0 (min 100 \<lfloor>p\<rfloor>))
                                        (if truthy msg then the msg else message (heap st r))))
                             (subscribers (heap st r))\<rparr>"
  using assms by (simp add: updateProgress_def Let_def)

lemma updateProgress_absent:
  "\<not> truthy jobId \<or> jobs st (the jobId) = None \<Longrightarrow> updateProgress jobId p msg st = st"
  by (auto simp: updateProgress_def)

text \<open>
  No operation stores a job under the empty id (\<open>initJob\<close> returns before
  \<open>jobs.set\<close> when the id is falsy), so an existing job has a non-empty id.
\<close>

lemma initJob_no_empty_key:
  "jobs st [] = None \<Longrightarrow> jobs (snd (initJob jobId st)) [] = None"
  by (cases jobId) (auto simp: initJob_def Let_def split: option.splits)

lemma updateProgress_no_empty_key:
  "jobs st [] = None \<Longrightarrow> jobs (updateProgress jobId p msg st) [] = None"
  by (auto simp: updateProgress_def Let_def split: option.splits)

lemma completeJob_no_empty_key:
  "jobs st [] = None \<Longrightarrow> jobs (completeJob jobId st) [] = None"
  by (auto simp: completeJob_def updateProgress_def Let_def split: option.splits)

lemma run_callback_no_empty_key:
  "jobs st [] = None \<Longrightarrow> jobs (run_callback cb st) [] = None"
  by (cases cb) auto

lemma progress_endpoint_no_empty_key:
  "jobs st [] = None \<Longrightarrow> jobs (progress_endpoint jobId res st) [] = None"
  by (auto simp: progress_endpoint_def initJob_def Let_def split: option.splits)

lemma two_subscribers_eq:
  "two_subscribers =
     \<lparr>jobs = [js ''j1'' \<mapsto> 0],
      heap = (\<lambda>_. \<lparr>progress = 0, message = [], subscribers = [], status = Pending\<rparr>)
               (0 := \<lparr>progress = 0, message = js ''Starting'', subscribers = [7, 8], status = Pending\<rparr>),
      next_ref = 1,
      wire = [(7, Retry), (7, Data 0 (js ''Starting'')), (8, Retry), (8, Data 0 (js ''Starting''))],
      timers = [], now = 0\<rparr>"
  by (simp add: two_subscribers_def progress_endpoint_def initJob_def empty_tracker_def Let_def js_def)

text \<open>
  Claim C6. For a job of the registry (its id is a key of \<open>jobs\<close>, and no key is the
  empty string: \<open>initJob\<close> creates none), \<open>updateProgress\<close> stores the floor of
  \<open>progress\<close> clamped into 0..100, replaces the message only when the new one is truthy
  (present and not empty), leaves subscribers, status, registry, timers and every other job
  as they are, and writes the stored progress and message once to each subscriber, in
  order. When the id is falsy or names no job, the state is returned unchanged (so
  nothing is written).
\<close>

theorem updateProgress_spec:
  "(jobs st jid = Some r \<and> jid \<noteq> [] \<longrightarrow>
      (let st' = updateProgress (Some jid) p msg st
       in progress (heap st' r) = max 0 (min 100 \<lfloor>p\<rfloor>)
        \<and> message (heap st' r) = (if truthy msg then the msg else message (heap st r))
        \<and> subscribers (heap st' r) = subscribers (heap st r)
        \<and> status (heap st' r) = status (heap st r)
        \<and> wire st' = wire st @ map (\<lambda>res. (res, Data (progress (heap st' r)) (message (heap st' r))))
                                  (subscribers (heap st r))
        \<and> jobs st' = jobs st \<and> timers st' = timers st
        \<and> (\<forall>r'. r' \<noteq> r \<longrightarrow> heap st' r' = heap st r')))
   \<and> (\<not> truthy jobId \<or> jobs st (the jobId) = None \<longrightarrow> updateProgress jobId p msg st = st)"
  by (simp add: updateProgress_existing updateProgress_absent Let_def)

theorem updateProgress_spec_witness:
  "jobs two_subscribers (js ''j1'') = Some 0 \<and> js ''j1'' \<noteq> []
   \<and> progress (heap (updateProgress (Some (js ''j1'')) (7 / 2) None two_subscribers) 0) = 3
   \<and> message (heap (updateProgress (Some (js ''j1'')) (7 / 2) None two_subscribers) 0) = js ''Starting''
   \<and> wire (updateProgress (Some (js ''j1'')) (7 / 2) None two_subscribers)
       = wire two_subscribers @ [(7, Data 3 (js ''Starting'')), (8, Data 3 (js ''Starting''))]
   \<and> updateProgress (Some (js ''j2'')) 50 (Some (js ''x'')) two_subscribers = two_subscribers
   \<and> updateProgress None 50 (Some (js ''x'')) two_subscribers = two_subscribers"
  using updateProgress_spec [of two_subscribers "js ''j1''" 0 "7 / 2" None None]
        updateProgress_spec [of two_subscribers "js ''j1''" 0 50 "Some (js ''x'')" "Some (js ''j2'')"]
        updateProgress_spec [of two_subscribers "js ''j1''" 0 50 "Some (js ''x'')" None]
  by (simp add: two_subscribers_eq Let_def js_def)

text \<open>
  Claim C8. The tracker does not compare a new value with the stored one: after an
  update to \<open>p1\<close>, an update to a lower in-range \<open>p2\<close> stores \<open>p2\<close> and writes \<open>p2\<close> to
  every subscriber.
\<close>

theorem progress_may_regress:
  assumes "jobs st jid = Some r" and "jid \<noteq> []" and "0 \<le> p2" and "p2 < p1" and "p1 \<le> 100"
  shows "(let st1 = updateProgress (Some jid) (real_of_int p1) m1 st;
              st2 = updateProgress (Some jid) (real_of_int p2) m2 st1
          in progress (heap st1 r) = p1
           \<and> progress (heap st2 r) = p2
           \<and> progress (heap st2 r) < progress (heap st1 r)
           \<and> wire st2 = wire st1 @ map (\<lambda>res. (res, Data p2 (message (heap st2 r))))
                                      (subscribers (heap st r)))"
proof -
  let ?st1 = "updateProgress (Some jid) (real_of_int p1) m1 st"
  have j1: "jobs ?st1 jid = Some r"
    using assms(1,2) by (simp add: updateProgress_existing)
  have s1: "subscribers (heap ?st1 r) = subscribers (heap st r)"
    using assms(1,2) by (simp add: updateProgress_existing)
  have p1: "progress (heap ?st1 r) = p1"
    using assms by (simp add: updateProgress_existing)
  show ?thesis
    unfolding Let_def using assms p1 s1
    by (simp add: updateProgress_existing [OF j1 assms(2)])
qed

theorem progress_may_regress_witness:
  "(let st1 = updateProgress (Some (js ''j1'')) 80 (Some (js ''Generating HTML'')) two_subscribers;
        st2 = updateProgress (Some (js ''j1'')) 30 None st1
    in progress (heap st1 0) = 80 \<and> progress (heap st2 0) = 30
     \<and> wire st2 = wire st1 @ [(7, Data 30 (js ''Generating HTML'')), (8, Data 30 (js ''Generating HTML''))])"
  using progress_may_regress [of two_subscribers "js ''j1''" 0 30 80 "Some (js ''Generating HTML'')" None]
  by (simp add: two_subscribers_eq Let_def js_def updateProgress_def)

lemma completeJob_existing:
  assumes "jobs st jid = Some r" and "jid \<noteq> []"
  shows "completeJob (Some jid) st =
     st\<lparr>heap := (heap st)(r := (heap st r)\<lparr>status := Done, progress := 100, message := js ''Done''\<rparr>),
        wire := wire st @ map (\<lambda>res. (res, Data 100 (js ''Done''))) (subscribers (heap st r)),
        timers := timers st @ [(now st + 250, CloseSubscribers r jid)]\<rparr>"
proof -
  let ?st1 = "st\<lparr>heap := (heap st)(r := (heap st r)\<lparr>status := Done\<rparr>)\<rparr>"
  have j: "jobs ?st1 jid = Some r" using assms(1) by simp
  have d: "js ''Done'' \<noteq> []" by (simp add: js_def)
  show ?thesis
    using assms d by (simp add: completeJob_def Let_def updateProgress_existing [OF j assms(2)])
qed

text \<open>
  Claim C7. \<open>completeJob\<close> on a job of the registry marks it done, stores 100 and
  \<open>Done\<close> and writes that event to every subscriber; it closes no channel, keeps the
  subscriber set and the registry entry, and leaves one new timer due 250 ms later. That
  timer cannot run before it is due; when it runs (with nothing else in between) it ends
  every subscriber's channel, after the final event on the wire, empties the subscriber
  set and leaves a timer due 60000 ms later; that one cannot run earlier either, and when
  it runs it deletes the job from the registry.
\<close>

theorem completeJob_spec:
  assumes "jobs st jid = Some r" and "jid \<noteq> []"
  shows "(let subs = subscribers (heap st r);
              k = length (timers st);
              st1 = completeJob (Some jid) st
          in status (heap st1 r) = Done
           \<and> progress (heap st1 r) = 100
           \<and> message (heap st1 r) = js ''Done''
           \<and> wire st1 = wire st @ map (\<lambda>res. (res, Data 100 (js ''Done''))) subs
           \<and> subscribers (heap st1 r) = subs
           \<and> jobs st1 = jobs st
           \<and> timers st1 = timers st @ [(now st + 250, CloseSubscribers r jid)]
           \<and> (\<forall>d. d < 250 \<longrightarrow> fire k (advance d st1) = None)
           \<and> (\<forall>d. 250 \<le> d \<longrightarrow>
                 (\<exists>st2. fire k (advance d st1) = Some st2
                   \<and> wire st2 = wire st1 @ map (\<lambda>res. (res, End)) subs
                   \<and> subscribers (heap st2 r) = []
                   \<and> status (heap st2 r) = Done
                   \<and> jobs st2 = jobs st
                   \<and> timers st2 = timers st @ [(now st2 + 60000, DeleteJob jid)]
                   \<and> (\<forall>e. e < 60000 \<longrightarrow> fire k (advance e st2) = None)
                   \<and> (\<forall>e. 60000 \<le> e \<longrightarrow>
                         (\<exists>st3. fire k (advance e st2) = Some st3
                           \<and> jobs st3 = (jobs st)(jid := None)
                           \<and> wire st3 = wire st2 \<and> timers st3 = timers st)))))"
  unfolding Let_def completeJob_existing [OF assms]
  by (simp add: fire_def advance_def nth_append)

theorem completeJob_spec_witness:
  "(let st1 = completeJob (Some (js ''j1'')) two_subscribers
    in status (heap st1 0) = Done
     \<and> wire st1 = wire two_subscribers @ [(7, Data 100 (js ''Done'')), (8, Data 100 (js ''Done''))]
     \<and> fire 0 (advance 249 st1) = None
     \<and> (\<exists>st2. fire 0 (advance 250 st1) = Some st2
          \<and> wire st2 = wire st1 @ [(7, End), (8, End)]
          \<and> subscribers (heap st2 0) = []
          \<and> jobs st2 (js ''j1'') = Some 0
          \<and> fire 0 (advance 59999 st2) = None
          \<and> (\<exists>st3. fire 0 (advance 60000 st2) = Some st3 \<and> jobs st3 (js ''j1'') = None)))"
proof -
  have a: "jobs two_subscribers (js ''j1'') = Some 0" by (simp add: two_subscribers_eq)
  have b: "js ''j1'' \<noteq> []" by (simp add: js_def)
  show ?thesis
    using completeJob_spec [OF a b]
    by (simp add: Let_def two_subscribers_eq completeJob_def updateProgress_def fire_def
          advance_def js_def)
qed

section \<open>Extraction finds exactly the fenced blocks\<close>

lemma starts_with_append_same [simp]: "starts_with p (p @ s)"
  by (induction p) auto

lemma starts_with_append_long:
  "length p \<le> length s \<Longrightarrow> starts_with p (s @ x) = starts_with p s"
  by (simp add: starts_with_iff)

lemma open_fence_no_overlap:
  assumes "0 < length g" and "length g < length OPEN_FENCE"
  shows "\<not> starts_with OPEN_FENCE (g @ OPEN_FENCE @ r)"
proof
  assume "starts_with OPEN_FENCE (g @ OPEN_FENCE @ r)"
  then have "take 11 (g @ OPEN_FENCE @ r) = OPEN_FENCE"
    by (simp add: starts_with_iff length_OPEN_FENCE)
  moreover have "take 11 (g @ OPEN_FENCE @ r) ! 10 = (g @ OPEN_FENCE @ r) ! 10"
    by (rule nth_take) simp
  ultimately have "(g @ OPEN_FENCE @ r) ! 10 = OPEN_FENCE ! 10" by (simp only:)
  moreover have "(g @ OPEN_FENCE @ r) ! 10 = OPEN_FENCE ! (10 - length g)"
  proof -
    have "10 - length g < 11" by arith
    then show ?thesis using assms by (simp add: nth_append length_OPEN_FENCE)
  qed
  moreover have "OPEN_FENCE ! (10 - length g) \<in> set (take 10 OPEN_FENCE)"
  proof -
    have "10 - length g < length (take 10 OPEN_FENCE)"
      using assms by (simp add: length_OPEN_FENCE)
    then have "take 10 OPEN_FENCE ! (10 - length g) \<in> set (take 10 OPEN_FENCE)"
      by (rule nth_mem)
    then show ?thesis using assms by simp
  qed
  moreover have "OPEN_FENCE ! 10 \<notin> set (take 10 OPEN_FENCE)"
    by (simp add: OPEN_FENCE_def js_def)
  ultimately show False by simp
qed

lemma open_fence_not_across:
  assumes "g \<noteq> []" and "\<not> starts_with OPEN_FENCE g"
  shows "\<not> starts_with OPEN_FENCE (g @ OPEN_FENCE @ r)"
proof (cases "length g < length OPEN_FENCE")
  case True
  with assms(1) show ?thesis by (simp add: open_fence_no_overlap)
next
  case False
  then show ?thesis using assms(2) by (simp add: starts_with_append_long)
qed

lemma find_close_own:
  assumes "\<not> occurs_in CLOSE_FENCE b" and "b = [] \<or> last b \<noteq> 0x60"
  shows "find_close (b @ CLOSE_FENCE @ r) = Some (length b)"
  using assms
proof (induction b)
  case Nil
  then show ?case by (simp add: CLOSE_FENCE_def js_def)
next
  case (Cons c b)
  have ns: "\<not> starts_with CLOSE_FENCE ((c # b) @ CLOSE_FENCE @ r)"
  proof (cases b)
    case Nil
    with Cons.prems show ?thesis by (auto simp: CLOSE_FENCE_def js_def)
  next
    case (Cons d b')
    note b = this
    show ?thesis
    proof (cases b')
      case Nil
      with b Cons.prems show ?thesis by (auto simp: CLOSE_FENCE_def js_def)
    next
      case (Cons e b'')
      with b Cons.prems show ?thesis by (auto simp: CLOSE_FENCE_def js_def)
    qed
  qed
  have "\<not> occurs_in CLOSE_FENCE b" using Cons.prems(1) by simp
  moreover have "b = [] \<or> last b \<noteq> 0x60" using Cons.prems(2) by (cases b) auto
  ultimately have "find_close (b @ CLOSE_FENCE @ r) = Some (length b)" by (rule Cons.IH)
  with ns show ?case by simp
qed

lemma find_close_None: "\<not> occurs_in CLOSE_FENCE s \<Longrightarrow> find_close s = None"
  by (induction s) auto

lemma match_here_block:
  assumes "\<not> occurs_in CLOSE_FENCE b" and "b = [] \<or> last b \<noteq> 0x60"
  shows "match_here (OPEN_FENCE @ b @ CLOSE_FENCE @ r)
           = Some (length OPEN_FENCE + length b + length CLOSE_FENCE)"
  using assms by (simp add: match_here_def find_close_own)

lemma search_here: "match_here s = Some n \<Longrightarrow> search s = Some (0, n)"
  by (cases s) (auto simp: match_here_def OPEN_FENCE_def js_def)

lemma search_block:
  assumes "\<not> occurs_in OPEN_FENCE g" and "\<not> occurs_in CLOSE_FENCE b" and "b = [] \<or> last b \<noteq> 0x60"
  shows "search (g @ OPEN_FENCE @ b @ CLOSE_FENCE @ r)
           = Some (length g, length OPEN_FENCE + length b + length CLOSE_FENCE)"
  using assms(1)
proof (induction g)
  case Nil
  show ?case using match_here_block [OF assms(2,3)] by (simp add: search_here)
next
  case (Cons c g)
  have "\<not> starts_with OPEN_FENCE (c # g)" using Cons.prems by simp
  then have "\<not> starts_with OPEN_FENCE ((c # g) @ OPEN_FENCE @ (b @ CLOSE_FENCE @ r))"
    by (intro open_fence_not_across) simp_all
  then have "match_here (c # g @ OPEN_FENCE @ b @ CLOSE_FENCE @ r) = None"
    by (simp add: match_here_def)
  moreover have "search (g @ OPEN_FENCE @ b @ CLOSE_FENCE @ r)
           = Some (length g, length OPEN_FENCE + length b + length CLOSE_FENCE)"
    using Cons by simp
  ultimately show ?case by simp
qed

lemma search_None: "\<not> complete_fence_in t \<Longrightarrow> search t = None"
proof (induction t)
  case Nil
  then show ?case by simp
next
  case (Cons c t)
  then have "match_here (c # t) = None"
    by (auto simp: match_here_def find_close_None)
  with Cons show ?case by simp
qed

lemma exec_tail: "\<not> complete_fence_in t \<Longrightarrow> exec (pre @ t) (length pre) = None"
  by (simp add: exec_def search_None)

lemma exec_block:
  assumes "\<not> occurs_in OPEN_FENCE g" and "\<not> occurs_in CLOSE_FENCE b" and "b = [] \<or> last b \<noteq> 0x60"
  shows "exec (pre @ g @ OPEN_FENCE @ b @ CLOSE_FENCE @ r) (length pre)
           = Some (\<lparr>m_index = length pre + length g,
                    m_0 = OPEN_FENCE @ b @ CLOSE_FENCE,
                    m_1 = b\<rparr>,
                   length pre + length g + length OPEN_FENCE + length b + length CLOSE_FENCE)"
proof -
  have d1: "drop (length pre + length g) (pre @ g @ OPEN_FENCE @ b @ CLOSE_FENCE @ r)
              = OPEN_FENCE @ b @ CLOSE_FENCE @ r" by simp
  have d2: "drop (length pre + length g + length OPEN_FENCE) (pre @ g @ OPEN_FENCE @ b @ CLOSE_FENCE @ r)
              = b @ CLOSE_FENCE @ r" by simp
  show ?thesis
    using search_block [OF assms, of r] d1 d2
    by (simp add: exec_def add.assoc)
qed

lemma extract_loop_doc:
  assumes "\<forall>(g, b) \<in> set blocks. \<not> occurs_in OPEN_FENCE g \<and> \<not> occurs_in CLOSE_FENCE b
              \<and> (b = [] \<or> last b \<noteq> 0x60)"
      and "\<not> complete_fence_in t"
  shows "extract_loop (pre @ doc_of blocks t) (length pre) acc = acc @ expected (length pre) blocks"
  using assms(1)
proof (induction blocks arbitrary: pre acc)
  case Nil
  show ?case by (simp add: extract_loop.simps [of "pre @ t"] exec_tail [OF assms(2)])
next
  case (Cons gb blocks)
  obtain g b where gb: "gb = (g, b)" by (cases gb)
  have ok: "\<not> occurs_in OPEN_FENCE g" "\<not> occurs_in CLOSE_FENCE b" "b = [] \<or> last b \<noteq> 0x60"
    using Cons.prems gb by auto
  let ?pre' = "pre @ g @ OPEN_FENCE @ b @ CLOSE_FENCE"
  let ?d = "\<lparr>original = OPEN_FENCE @ b @ CLOSE_FENCE, code = trim b, index = length pre + length g\<rparr>"
  have IH: "extract_loop (?pre' @ doc_of blocks t) (length ?pre') (acc @ [?d])
              = (acc @ [?d]) @ expected (length ?pre') blocks"
    using Cons.prems by (intro Cons.IH) simp
  have "extract_loop (pre @ doc_of (gb # blocks) t) (length pre) acc
          = extract_loop (?pre' @ doc_of blocks t) (length ?pre') (acc @ [?d])"
    unfolding gb doc_of.simps
    by (subst extract_loop.simps) (simp add: exec_block [OF ok] add.assoc)
  also note IH
  finally show ?case by (simp add: gb add.assoc)
qed

lemma expected_index_lower: "d \<in> set (expected pos blocks) \<Longrightarrow> pos \<le> index d"
proof (induction blocks arbitrary: pos)
  case Nil
  then show ?case by simp
next
  case (Cons gb blocks)
  obtain g b where gb: "gb = (g, b)" by (cases gb)
  let ?pos' = "pos + length g + length OPEN_FENCE + length b + length CLOSE_FENCE"
  from Cons.prems consider "index d = pos + length g" | "d \<in> set (expected ?pos' blocks)"
    unfolding gb by auto
  then show ?case
  proof cases
    case 1
    then show ?thesis by simp
  next
    case 2
    then have "?pos' \<le> index d" by (rule Cons.IH)
    then show ?thesis by simp
  qed
qed

lemma expected_sorted: "sorted_wrt (<) (map index (expected pos blocks))"
proof (induction blocks arbitrary: pos)
  case Nil
  then show ?case by simp
next
  case (Cons gb blocks)
  obtain g b where gb: "gb = (g, b)" by (cases gb)
  show ?case
    unfolding gb using Cons.IH
    by (auto simp: length_OPEN_FENCE dest!: expected_index_lower)
qed

lemma expected_length: "length (expected pos blocks) = length blocks"
  by (induction blocks arbitrary: pos) (auto split: prod.splits)

lemma expected_code: "map code (expected pos blocks) = map (\<lambda>(gap, interior). trim interior) blocks"
  by (induction blocks arbitrary: pos) (auto split: prod.splits)

text \<open>
  Claim C2. Take a document made of \<open>N\<close> fenced blocks, each preceded by text without
  an opening fence, each interior ending at the first closing fence after the opening
  line (it contains no closing fence and does not end in a backtick), and followed by a
  rest in which no opening fence is followed by a closing fence (no opening fence at
  all, or unterminated ones only). The extraction loop ends and returns exactly the \<open>N\<close>
  occurrences, in ascending order of their offsets, each with the whole fence as
  \<open>original\<close>, the trimmed interior as \<open>code\<close> and the offset of its opening fence as
  \<open>index\<close>; the unterminated opening yields nothing.
\<close>

theorem extraction_spec:
  assumes "\<forall>(gap, interior) \<in> set blocks.
             \<not> occurs_in OPEN_FENCE gap \<and> \<not> occurs_in CLOSE_FENCE interior
             \<and> (interior = [] \<or> last interior \<noteq> 0x60)"
      and "\<not> complete_fence_in rest"
  shows "extract_diagrams (doc_of blocks rest) = expected 0 blocks
       \<and> length (extract_diagrams (doc_of blocks rest)) = length blocks
       \<and> map code (extract_diagrams (doc_of blocks rest)) = map (\<lambda>(gap, interior). trim interior) blocks
       \<and> sorted_wrt (<) (map index (extract_diagrams (doc_of blocks rest)))"
proof -
  have "extract_diagrams (doc_of blocks rest) = expected 0 blocks"
    using extract_loop_doc [OF assms, of "[]" "[]"] by (simp add: extract_diagrams_def)
  then show ?thesis
    by (simp add: expected_length expected_code expected_sorted)
qed

theorem extraction_spec_witness:
  "\<not> occurs_in OPEN_FENCE (js ''A '') \<and> \<not> occurs_in CLOSE_FENCE (js ''X'' @ [0x0A])
   \<and> last (js ''X'' @ [0x0A]) \<noteq> 0x60
   \<and> \<not> occurs_in OPEN_FENCE (js '' B '') \<and> \<not> occurs_in CLOSE_FENCE (js '' Y'' @ [0x0A])
   \<and> last (js '' Y'' @ [0x0A]) \<noteq> 0x60
   \<and> \<not> complete_fence_in example_rest
   \<and> doc_of example_blocks example_rest
       = js ''A ```mermaid'' @ [0x0A] @ js ''X'' @ [0x0A] @ js ''``` B ```mermaid'' @ [0x0A]
         @ js '' Y'' @ [0x0A] @ js ''``` C ```mermaid'' @ [0x0A] @ js ''Z''
   \<and> length (extract_diagrams (doc_of example_blocks example_rest)) = 2
   \<and> map code (extract_diagrams (doc_of example_blocks example_rest)) = [js ''X'', js ''Y'']
   \<and> map index (extract_diagrams (doc_of example_blocks example_rest)) = [2, 21]"
  using extraction_spec [of example_blocks example_rest]
  by code_simp

section \<open>The extracted spans\<close>

lemma search_span:
  "search s = Some (k, n) \<Longrightarrow> k + n \<le> length s"
  by (drule search_bound) simp

lemma exec_span:
  assumes "exec md i = Some (m, j)"
  shows "i \<le> m_index m \<and> j = m_index m + length (m_0 m) \<and> j \<le> length md
       \<and> m_0 m = take (length (m_0 m)) (drop (m_index m) md)"
proof -
  from assms obtain k n where s: "search (drop i md) = Some (k, n)" and i: "i \<le> length md"
    and m: "m = \<lparr>m_index = i + k, m_0 = take n (drop (i + k) md),
                 m_1 = take (n - length OPEN_FENCE - length CLOSE_FENCE)
                         (drop (i + k + length OPEN_FENCE) md)\<rparr>"
    and j: "j = i + k + n"
    by (auto simp: exec_def split: if_splits option.splits)
  from search_span [OF s] i have "i + k + n \<le> length md" by simp
  then show ?thesis using m j by (auto simp: min_def)
qed

lemma prev_end_append: "i \<le> length ds \<Longrightarrow> prev_end i (ds @ [d]) = prev_end i ds"
  by (auto simp: prev_end_def nth_append)

lemma prev_end_snoc: "prev_end (Suc (length ds)) (ds @ [d]) = index d + length (original d)"
  by (simp add: prev_end_def)

lemma spans_ok_snoc:
  assumes "spans_ok md ds" and "prev_end (length ds) ds \<le> index d"
    and "index d + length (original d) \<le> length md"
    and "original d = take (length (original d)) (drop (index d) md)"
  shows "spans_ok md (ds @ [d])"
  unfolding spans_ok_def
proof (intro allI impI)
  fix i assume "i < length (ds @ [d])"
  then consider "i < length ds" | "i = length ds" by fastforce
  then show "prev_end i (ds @ [d]) \<le> index ((ds @ [d]) ! i)
        \<and> index ((ds @ [d]) ! i) + length (original ((ds @ [d]) ! i)) \<le> length md
        \<and> original ((ds @ [d]) ! i)
            = take (length (original ((ds @ [d]) ! i))) (drop (index ((ds @ [d]) ! i)) md)"
  proof cases
    case 1
    then show ?thesis using assms(1) by (simp add: spans_ok_def nth_append prev_end_append)
  next
    case 2
    then show ?thesis using assms(2,3,4) by (simp add: prev_end_append)
  qed
qed

lemma extract_loop_spans:
  "spans_ok md acc \<Longrightarrow> prev_end (length acc) acc \<le> i \<Longrightarrow> spans_ok md (extract_loop md i acc)"
proof (induction md i acc rule: extract_loop.induct)
  case (1 md i acc)
  show ?case
  proof (cases "exec md i")
    case None
    then show ?thesis using "1.prems" by (simp add: extract_loop.simps [of md i])
  next
    case (Some mj)
    obtain m j where mj: "mj = (m, j)" by (cases mj)
    let ?d = "\<lparr>original = m_0 m, code = trim (m_1 m), index = m_index m\<rparr>"
    from exec_span [OF Some [unfolded mj]]
    have sp: "i \<le> m_index m" "j = m_index m + length (m_0 m)" "j \<le> length md"
      "m_0 m = take (length (m_0 m)) (drop (m_index m) md)" by simp_all
    have ok: "spans_ok md (acc @ [?d])"
      using "1.prems" sp by (intro spans_ok_snoc) simp_all
    have c: "prev_end (length (acc @ [?d])) (acc @ [?d]) \<le> j"
      using sp(2) by (simp add: prev_end_snoc)
    have "spans_ok md (extract_loop md j (acc @ [?d]))"
      using "1.IH" [OF Some [unfolded mj] refl ok c] .
    then show ?thesis using Some mj by (simp add: extract_loop.simps [of md i])
  qed
qed

lemma extract_diagrams_spans: "spans_ok md (extract_diagrams md)"
  unfolding extract_diagrams_def
  by (rule extract_loop_spans) (simp_all add: spans_ok_def prev_end_def)

section \<open>The rewriting loop\<close>

lemma outcomes_length [simp]: "length (outcomes render ds) = length ds"
  by (simp add: outcomes_def)

lemma outcomes_nth: "i < length ds \<Longrightarrow> outcomes render ds ! i = outcome render ds i"
  by (simp add: outcomes_def)

lemma drop_outcomes:
  "i < length ds \<Longrightarrow> drop i (outcomes render ds) = outcome render ds i # drop (Suc i) (outcomes render ds)"
  by (simp add: Cons_nth_drop_Suc [symmetric] outcomes_nth)

lemma spans_okD:
  assumes "spans_ok md ds" and "i < length ds"
  shows "prev_end i ds \<le> index (ds ! i)"
    and "index (ds ! i) + length (original (ds ! i)) \<le> length md"
    and "take (length (original (ds ! i))) (drop (index (ds ! i)) md) = original (ds ! i)"
  using assms by (simp_all add: spans_ok_def)

lemma take_split3:
  assumes "a \<le> s"
  shows "take (s + n) md = take a md @ take (s - a) (drop a md) @ take n (drop s md)"
proof -
  have "take (s + n) md = take s md @ take n (drop s md)" by (rule take_add)
  moreover have "take s md = take a md @ take (s - a) (drop a md)"
    using assms take_add [of a "s - a" md] by simp
  ultimately show ?thesis by simp
qed

lemma render_content_rewritten:
  assumes ok: "spans_ok md ds"
  shows "k \<le> length ds \<Longrightarrow>
     render_content render ds k
        (take (prev_end k ds) md @ rewritten md (prev_end k ds) (length md) (drop k (outcomes render ds)))
       = rewritten md 0 (length md) (outcomes render ds)"
proof (induction k)
  case 0
  show ?case by (simp add: prev_end_def)
next
  case (Suc i)
  then have i: "i < length ds" by simp
  let ?d = "ds ! i"
  let ?s = "index ?d" and ?n = "length (original ?d)"
  let ?rest = "rewritten md (?s + ?n) (length md) (drop (Suc i) (outcomes render ds))"
  define C where "C = take (prev_end i ds) md
                        @ rewritten md (prev_end i ds) (length md) (drop i (outcomes render ds))"
  have IH: "render_content render ds i C = rewritten md 0 (length md) (outcomes render ds)"
    unfolding C_def using Suc by simp
  have cS: "prev_end (Suc i) ds = ?s + ?n" by (simp add: prev_end_def)
  have le: "prev_end i ds \<le> ?s" and inside: "?s + ?n \<le> length md"
    and orig: "take ?n (drop ?s md) = original ?d"
    using spans_okD [OF ok i] by simp_all
  have pre: "take ?s md = take (prev_end i ds) md @ take (?s - prev_end i ds) (drop (prev_end i ds) md)"
    using le take_add [of "prev_end i ds" "?s - prev_end i ds" md] by simp
  have t1: "take ?s (take (?s + ?n) md @ ?rest) = take ?s md"
    using inside by (simp add: min_def)
  have t2: "drop (?s + ?n) (take (?s + ?n) md @ ?rest) = ?rest"
    using inside by simp
  show ?case
  proof (cases "render i (code ?d)")
    case (Inl e)
    have "take (?s + ?n) md @ ?rest = C"
      unfolding C_def using Inl by (simp add: drop_outcomes [OF i] outcome_def take_split3 [OF le])
    then show ?thesis
      unfolding cS using Inl IH by (simp only: render_content.simps sum.case)
  next
    case (Inr img)
    have "take ?s md @ imageTag img @ ?rest = C"
      unfolding C_def using Inr by (simp add: drop_outcomes [OF i] outcome_def pre)
    then show ?thesis
      unfolding cS using Inr IH by (simp only: render_content.simps sum.case t1 t2)
  qed
qed

lemma render_content_all:
  assumes "spans_ok md ds"
  shows "render_content render ds (length ds) md = rewritten md 0 (length md) (outcomes render ds)"
proof (cases "ds = []")
  case True
  then show ?thesis by (simp add: outcomes_def)
next
  case False
  then have l: "length ds - 1 < length ds" by simp
  have "prev_end (length ds) ds \<le> length md"
    using False spans_okD(2) [OF assms l] by (simp add: prev_end_def)
  then have "take (prev_end (length ds) ds) md
               @ rewritten md (prev_end (length ds) ds) (length md) (drop (length ds) (outcomes render ds)) = md"
    by simp
  with render_content_rewritten [OF assms, of "length ds" render]
  show ?thesis by simp
qed

lemma progress_code_eq:
  assumes "1 \<le> k" and "k \<le> n"
  shows "min (s + \<lfloor>real_of_int (max 0 (e - s) * int k) / real n\<rfloor>) e = progress_after s e k n"
proof (cases "s \<le> e")
  case True
  then show ?thesis by (simp add: progress_after_def max_def)
next
  case False
  have n: "0 < int n" using assms by simp
  have "(e - s) * int n \<le> (e - s) * int k"
    using False assms by (intro mult_left_mono_neg) simp_all
  then have "((e - s) * int n) div int n \<le> ((e - s) * int k) div int n"
    using n by (intro zdiv_mono1) simp_all
  then have "e - s \<le> ((e - s) * int k) div int n" using n by simp
  moreover have "\<lfloor>real_of_int ((e - s) * int k) / real n\<rfloor> = ((e - s) * int k) div int n"
    using floor_divide_of_int_eq [of "(e - s) * int k" "int n", where ?'a = real] by simp
  ultimately show ?thesis using False by (simp add: progress_after_def max_def min_def)
qed

lemma progress_updates_Suc:
  "progress_updates render ds start endp (Suc i) =
     (if succeeded render ds i
      then [(progress_after start endp (length ds - i) (length ds),
             rendered_message (length ds - i) (length ds))]
      else [])
     @ progress_updates render ds start endp i"
  by (simp add: progress_updates_def)

lemma apply_updates_Nil [simp]: "apply_updates jobId [] st = st"
  by (simp add: apply_updates_def)

lemma apply_updates_Cons [simp]:
  "apply_updates jobId ((p, m) # us) st
     = apply_updates jobId us (updateProgress jobId (real_of_int p) (Some m) st)"
  by (simp add: apply_updates_def)

lemma render_loop_split:
  "k \<le> length ds \<Longrightarrow>
     render_loop render ds jobId start endp k (c, st)
       = (render_content render ds k c,
          apply_updates jobId (progress_updates render ds start endp k) st)"
proof (induction k arbitrary: c st)
  case 0
  show ?case by (simp add: progress_updates_def)
next
  case (Suc i)
  then have i: "i < length ds" by simp
  have IH: "\<And>c st. render_loop render ds jobId start endp i (c, st)
              = (render_content render ds i c,
                 apply_updates jobId (progress_updates render ds start endp i) st)"
    using Suc by simp
  have pe: "min (start + \<lfloor>real_of_int (max 0 (endp - start) * int (length ds - i)) / real (length ds)\<rfloor>) endp
              = progress_after start endp (length ds - i) (length ds)"
    using i by (intro progress_code_eq) simp_all
  show ?case
  proof (cases "render i (code (ds ! i))")
    case (Inl e)
    then show ?thesis
      by (simp add: IH progress_updates_Suc succeeded_def Let_def)
  next
    case (Inr img)
    have pos: "0 < length ds" using i by (cases ds) simp_all
    from Inr show ?thesis
      by (simp only: render_loop.simps Let_def sum.case pe IH render_content.simps
            progress_updates_Suc succeeded_def pos if_True) simp
  qed
qed

lemma processMermaidDiagrams_eq:
  assumes "format \<noteq> js ''html''"
  shows "processMermaidDiagrams render md format opts st =
     (Inr (rewritten md 0 (length md) (outcomes render (extract_diagrams md))),
      apply_updates (o_jobId opts)
        (progress_updates render (extract_diagrams md) (o_start opts) (o_end opts)
           (length (extract_diagrams md))) st)"
  using assms
  by (simp add: processMermaidDiagrams_def Let_def render_loop_split
        render_content_all [OF extract_diagrams_spans])

lemma rewritten_split:
  "i < length sp \<Longrightarrow> sp ! i = (s, n, r) \<Longrightarrow>
     rewritten md lo hi sp =
       rewritten md lo s (take i sp)
       @ (case r of None \<Rightarrow> take n (drop s md) | Some t \<Rightarrow> t)
       @ rewritten md (s + n) hi (drop (Suc i) sp)"
proof (induction sp arbitrary: i lo)
  case Nil
  then show ?case by simp
next
  case (Cons x sp)
  obtain s' n' r' where x: "x = (s', n', r')" by (cases x)
  show ?case
  proof (cases i)
    case 0
    with Cons.prems x show ?thesis by simp
  next
    case (Suc j)
    with Cons.prems have "j < length sp" "sp ! j = (s, n, r)" by simp_all
    from Cons.IH [OF this, of "s' + n'"] show ?thesis using Suc x by simp
  qed
qed

text \<open>
  Claim C1. For every document, every renderer (every assignment of success or failure
  to the renders) and every format other than \<open>html\<close>, the text returned by
  \<open>processMermaidDiagrams\<close> is the original document in which the span of each
  diagram whose render succeeded is replaced by its image reference: the spans of
  the extracted diagrams lie inside the document, ascending and without overlap, and
  the text before, between and after them, and the spans of the failed diagrams, are
  copied from the original.
\<close>

theorem rewrite_spec:
  assumes "format \<noteq> js ''html''"
  shows "fst (processMermaidDiagrams render md format opts st)
           = Inr (rewritten md 0 (length md) (outcomes render (extract_diagrams md)))
       \<and> spans_ok md (extract_diagrams md)"
  using assms by (simp add: processMermaidDiagrams_eq extract_diagrams_spans)

theorem rewrite_spec_witness:
  "js ''pdf'' \<noteq> js ''html''
   \<and> fst (processMermaidDiagrams fails_second scenario (js ''pdf'') default_opts empty_tracker)
       = Inr (js ''A ![Mermaid Diagram](data:image/png;base64,AAAA) B ```mermaid'' @ [0x0A]
              @ js ''Y'' @ [0x0A] @ js ''``` C'')"
  using rewrite_spec [of "js ''pdf''" fails_second scenario default_opts empty_tracker]
  by code_simp

text \<open>
  Claim C3. When the render of diagram \<open>i\<close> throws, \<open>processMermaidDiagrams\<close> still
  returns a text (the error is caught in the loop), and that text is: the rewritten text
  before the diagram, the diagram's original fenced block, which is the text of its span
  in the document, and the rewritten text after it, where the two rewritten parts are
  what the other diagrams' renders give. The example after the theorem is the
  scenario of the specification: the first render fails, the second succeeds.
\<close>

theorem render_failure_spec:
  assumes "format \<noteq> js ''html''"
      and "i < length (extract_diagrams md)"
      and "render i (code (extract_diagrams md ! i)) = Inl e"
  shows "(let ds = extract_diagrams md; d = ds ! i; sp = outcomes render ds
          in fst (processMermaidDiagrams render md format opts st)
               = Inr (rewritten md 0 (index d) (take i sp)
                      @ original d
                      @ rewritten md (index d + length (original d)) (length md) (drop (Suc i) sp))
           \<and> original d = take (length (original d)) (drop (index d) md))"
proof -
  let ?ds = "extract_diagrams md"
  let ?d = "?ds ! i"
  let ?sp = "outcomes render ?ds"
  have ok: "spans_ok md ?ds" by (rule extract_diagrams_spans)
  have orig: "take (length (original ?d)) (drop (index ?d) md) = original ?d"
    using spans_okD(3) [OF ok assms(2)] .
  have nth: "?sp ! i = (index ?d, length (original ?d), None)"
    using assms(2,3) by (simp add: outcomes_nth outcome_def)
  have "rewritten md 0 (length md) ?sp =
          rewritten md 0 (index ?d) (take i ?sp) @ original ?d
          @ rewritten md (index ?d + length (original ?d)) (length md) (drop (Suc i) ?sp)"
    using rewritten_split [OF _ nth, of md 0 "length md"] assms(2) orig by simp
  then show ?thesis
    using assms(1) orig by (simp add: processMermaidDiagrams_eq Let_def)
qed

theorem render_failure_spec_witness:
  "js ''pdf'' \<noteq> js ''html''
   \<and> 0 < length (extract_diagrams scenario)
   \<and> fails_first 0 (code (extract_diagrams scenario ! 0)) = Inl (Error (js ''timeout''))
   \<and> fst (processMermaidDiagrams fails_first scenario (js ''pdf'') default_opts empty_tracker)
       = Inr (js ''A ```mermaid'' @ [0x0A] @ js ''X'' @ [0x0A]
              @ js ''``` B ![Mermaid Diagram](data:image/png;base64,AAAA) C'')"
  using render_failure_spec [of "js ''pdf''" 0 scenario fails_first "Error (js ''timeout'')"
          default_opts empty_tracker]
  by code_simp

text \<open>
  Claim C4, as the code has it. For a format other than \<open>html\<close> the rendering phase
  issues one progress update for each diagram whose render succeeded, last diagram
  first, and none for a diagram whose render failed; the value passed for diagram \<open>i\<close>
  of \<open>N\<close> is \<open>start + floor((end - start) * k / N)\<close> capped at \<open>end\<close>, where
  \<open>k = N - i\<close> is the number of diagrams the loop has gone through, failed ones
  included. With no diagram the phase issues no update and returns the document
  unchanged.
\<close>

theorem render_progress_spec:
  assumes "format \<noteq> js ''html''"
  shows "(let ds = extract_diagrams md
          in snd (processMermaidDiagrams render md format opts st)
               = apply_updates (o_jobId opts)
                   (progress_updates render ds (o_start opts) (o_end opts) (length ds)) st
           \<and> (ds = [] \<longrightarrow> processMermaidDiagrams render md format opts st = (Inr md, st)))"
  using assms
  by (simp add: processMermaidDiagrams_eq Let_def outcomes_def progress_updates_def)

theorem render_progress_spec_witness:
  "js ''pdf'' \<noteq> js ''html''
   \<and> wire (snd (processMermaidDiagrams renders_all two_fences (js ''pdf'')
                  \<lparr>o_jobId = Some (js ''j1''), o_start = 5, o_end = 60\<rparr> one_subscriber))
       = wire one_subscriber
         @ [(7, Data 32 (js ''Rendered diagram 1/2'')), (7, Data 60 (js ''Rendered diagram 2/2''))]
   \<and> fst (processMermaidDiagrams renders_all (js ''no diagram'') (js ''pdf'')
             \<lparr>o_jobId = Some (js ''j1''), o_start = 5, o_end = 60\<rparr> one_subscriber)
       = Inr (js ''no diagram'')
   \<and> wire (snd (processMermaidDiagrams renders_all (js ''no diagram'') (js ''pdf'')
                  \<lparr>o_jobId = Some (js ''j1''), o_start = 5, o_end = 60\<rparr> one_subscriber))
       = wire one_subscriber"
proof -
  let ?opts = "\<lparr>o_jobId = Some (js ''j1''), o_start = 5, o_end = 60\<rparr>"
  have f: "js ''pdf'' \<noteq> js ''html''"
    by code_simp
  have none: "extract_diagrams (js ''no diagram'') = []"
    by code_simp
  have two: "wire (apply_updates (Some (js ''j1''))
                    (progress_updates renders_all (extract_diagrams two_fences) 5 60
                       (length (extract_diagrams two_fences))) one_subscriber)
               = wire one_subscriber
                 @ [(7, Data 32 (js ''Rendered diagram 1/2'')), (7, Data 60 (js ''Rendered diagram 2/2''))]"
    by code_simp
  from render_progress_spec [OF f, where render = renders_all and md = two_fences
         and st = one_subscriber and opts = ?opts]
       render_progress_spec [OF f, where render = renders_all and md = "js ''no diagram''"
         and st = one_subscriber and opts = ?opts]
  show ?thesis
    using f none two by (simp add: Let_def)
qed

text \<open>
  Claim C4 as stated fails when a render has failed: in a document of two diagrams whose
  second render fails, the update issued after the first diagram carries 60, the value
  for two diagrams, while one diagram has been rendered, for which the claimed value
  is 32.
\<close>

theorem progress_counts_processed_counterexample:
  "wire (snd (processMermaidDiagrams fails_second two_fences (js ''pdf'')
                \<lparr>o_jobId = Some (js ''j1''), o_start = 5, o_end = 60\<rparr> one_subscriber))
     = wire one_subscriber @ [(7, Data 60 (js ''Rendered diagram 2/2''))]
   \<and> rendered_so_far fails_second (extract_diagrams two_fences) 0 = 1
   \<and> progress_after 5 60 (rendered_so_far fails_second (extract_diagrams two_fences) 0) 2 = 32
   \<and> wire (snd (processMermaidDiagrams fails_second two_fences (js ''pdf'')
                \<lparr>o_jobId = Some (js ''j1''), o_start = 5, o_end = 60\<rparr> one_subscriber))
     \<noteq> wire one_subscriber
         @ [(7, Data (progress_after 5 60
                        (rendered_so_far fails_second (extract_diagrams two_fences) 0) 2)
                  (js ''Rendered diagram 2/2''))]"
  by code_simp

section \<open>The upload endpoint\<close>

lemma closes_append: "closes (a @ b) = closes a @ closes b"
  by (simp add: closes_def)

lemma closes_data: "closes (map (\<lambda>res. (res, Data p m)) subs) = []"
  by (induction subs) (simp_all add: closes_def)

lemma quiet_refl [simp]: "quiet st st"
  by (simp add: quiet_def closes_def)

lemma quiet_trans:
  assumes "quiet a b" and "quiet b c"
  shows "quiet a c"
proof -
  from assms(1) obtain e1 where e1: "wire b = wire a @ e1" "closes e1 = []"
    by (auto simp: quiet_def)
  from assms(2) obtain e2 where e2: "wire c = wire b @ e2" "closes e2 = []"
    by (auto simp: quiet_def)
  have "wire c = wire a @ (e1 @ e2) \<and> closes (e1 @ e2) = []"
    using e1 e2 by (simp add: closes_append)
  then have "\<exists>evs. wire c = wire a @ evs \<and> closes evs = []" by blast
  then show ?thesis using assms by (simp add: quiet_def)
qed

lemma quiet_updateProgress_step: "quiet st (updateProgress jobId p msg st)"
  by (auto simp: quiet_def updateProgress_def Let_def closes_data closes_def fun_eq_iff
        split: option.splits)

lemma quiet_updateProgress: "quiet st s \<Longrightarrow> quiet st (updateProgress jobId p msg s)"
  by (erule quiet_trans) (rule quiet_updateProgress_step)

lemma quiet_apply_updates: "quiet st s \<Longrightarrow> quiet st (apply_updates jobId us s)"
proof (induction us arbitrary: s)
  case Nil
  then show ?case by simp
next
  case (Cons u us)
  obtain p m where u: "u = (p, m)" by (cases u)
  show ?case unfolding u using Cons by (simp add: quiet_updateProgress)
qed

lemma quiet_processMermaidDiagrams:
  "quiet st s \<Longrightarrow> quiet st (snd (processMermaidDiagrams render md format opts s))"
proof (cases "format = js ''html''")
  case True
  assume "quiet st s"
  then show ?thesis
    using True by (simp add: processMermaidDiagrams_def Let_def quiet_updateProgress)
next
  case False
  assume "quiet st s"
  then show ?thesis using False by (simp add: processMermaidDiagrams_eq quiet_apply_updates)
qed

lemma quiet_convertToHTML:
  assumes "quiet st s"
  shows "quiet st (snd (convertToHTML env md fn jobId s))"
proof -
  let ?s1 = "updateProgress jobId 1 (Some (js ''Starting'')) s"
  obtain r s2 where p: "processMermaidDiagrams (renderMermaidToImage env) md (js ''html'')
                          \<lparr>o_jobId = jobId, o_start = 5, o_end = 40\<rparr> ?s1 = (r, s2)"
    by (cases "processMermaidDiagrams (renderMermaidToImage env) md (js ''html'')
                 \<lparr>o_jobId = jobId, o_start = 5, o_end = 40\<rparr> ?s1")
  have "quiet st (snd (processMermaidDiagrams (renderMermaidToImage env) md (js ''html'')
                          \<lparr>o_jobId = jobId, o_start = 5, o_end = 40\<rparr> ?s1))"
    by (intro quiet_processMermaidDiagrams quiet_updateProgress assms)
  then have q2: "quiet st s2" by (simp add: p)
  show ?thesis
    unfolding convertToHTML_def Let_def p
    by (auto split: sum.splits intro!: quiet_updateProgress q2)
qed

lemma quiet_convertToPDF:
  assumes "quiet st s"
  shows "quiet st (snd (convertToPDF env md fn jobId s))"
proof -
  let ?s1 = "updateProgress jobId 1 (Some (js ''Starting'')) s"
  obtain r s2 where p: "processMermaidDiagrams (renderMermaidToImage env) md (js ''pdf'')
                          \<lparr>o_jobId = jobId, o_start = 5, o_end = 60\<rparr> ?s1 = (r, s2)"
    by (cases "processMermaidDiagrams (renderMermaidToImage env) md (js ''pdf'')
                 \<lparr>o_jobId = jobId, o_start = 5, o_end = 60\<rparr> ?s1")
  have "quiet st (snd (processMermaidDiagrams (renderMermaidToImage env) md (js ''pdf'')
                          \<lparr>o_jobId = jobId, o_start = 5, o_end = 60\<rparr> ?s1))"
    by (intro quiet_processMermaidDiagrams quiet_updateProgress assms)
  then have q2: "quiet st s2" by (simp add: p)
  show ?thesis
    unfolding convertToPDF_def Let_def p
    by (auto split: sum.splits option.splits intro!: quiet_updateProgress q2)
qed

lemma quiet_convertToDOCX:
  assumes "quiet st s"
  shows "quiet st (snd (convertToDOCX env md fn jobId s))"
proof -
  let ?s1 = "updateProgress jobId 1 (Some (js ''Starting'')) s"
  obtain r s2 where p: "processMermaidDiagrams (renderMermaidToImage env) md (js ''docx'')
                          \<lparr>o_jobId = jobId, o_start = 5, o_end = 60\<rparr> ?s1 = (r, s2)"
    by (cases "processMermaidDiagrams (renderMermaidToImage env) md (js ''docx'')
                 \<lparr>o_jobId = jobId, o_start = 5, o_end = 60\<rparr> ?s1")
  have "quiet st (snd (processMermaidDiagrams (renderMermaidToImage env) md (js ''docx'')
                          \<lparr>o_jobId = jobId, o_start = 5, o_end = 60\<rparr> ?s1))"
    by (intro quiet_processMermaidDiagrams quiet_updateProgress assms)
  then have q2: "quiet st s2" by (simp add: p)
  show ?thesis
    unfolding convertToDOCX_def Let_def p
    by (auto split: sum.splits intro!: quiet_updateProgress q2)
qed

lemma quiet_convert_pipeline:
  assumes "quiet st s"
  shows "quiet st (snd (convert_pipeline env name format jobId s))"
proof (cases "fs_readFile env")
  case (Inl e)
  then show ?thesis using assms by (simp add: convert_pipeline_def)
next
  case (Inr md)
  let ?s1 = "updateProgress jobId 5 (Some (js ''Reading file'')) s"
  have q1: "quiet st ?s1" using assms by (rule quiet_updateProgress)
  note q = quiet_convertToHTML [OF q1, of env md "path_basename env name" jobId]
           quiet_convertToPDF [OF q1, of env md "path_basename env name" jobId]
           quiet_convertToDOCX [OF q1, of env md "path_basename env name" jobId]
  show ?thesis
    using Inr q
    by (auto simp: convert_pipeline_def Let_def split: prod.splits sum.splits)
qed

lemma initJob_created:
  assumes "truthy jobId"
  shows "\<exists>r. jobs (snd (initJob jobId st)) (the jobId) = Some r
           \<and> status (heap (snd (initJob jobId st)) r)
               = (case jobs st (the jobId) of None \<Rightarrow> Pending | Some r0 \<Rightarrow> status (heap st r0))
           \<and> subscribers (heap (snd (initJob jobId st)) r)
               = (case jobs st (the jobId) of None \<Rightarrow> [] | Some r0 \<Rightarrow> subscribers (heap st r0))
           \<and> timers (snd (initJob jobId st)) = timers st
           \<and> wire (snd (initJob jobId st)) = wire st"
  using assms by (auto simp: initJob_def Let_def split: option.splits)

lemma quietD:
  assumes "quiet st st'"
  shows "jobs st' = jobs st" and "timers st' = timers st"
    and "status (heap st' r) = status (heap st r)"
    and "subscribers (heap st' r) = subscribers (heap st r)"
    and "\<exists>evs. wire st' = wire st @ evs \<and> closes evs = []"
  using assms by (auto simp: quiet_def fun_eq_iff)

lemma convert_pipeline_sends:
  "convert_pipeline env name format jobId s = (Inr resp, s') \<Longrightarrow> \<exists>ct fn b. resp = Sent ct fn b"
  by (auto simp: convert_pipeline_def Let_def split: sum.splits prod.splits if_splits)

text \<open>
  While only the event loop runs, a job that every pending callback spares stays in the
  registry with its object untouched, and no \<open>res.end()\<close> reaches one of its subscribers.
\<close>

lemma spares_run_callback:
  assumes j: "jobs s jid = Some r"
      and cb: "spares r jid s0 cb"
      and rest: "\<forall>t \<in> set (timers s). spares r jid s0 (snd t)"
      and h: "heap s = heap s0"
  shows "jobs (run_callback cb s) jid = Some r
       \<and> heap (run_callback cb s) r = heap s0 r
       \<and> (\<forall>t \<in> set (timers (run_callback cb s)). spares r jid (run_callback cb s) (snd t))
       \<and> (\<exists>evs. wire (run_callback cb s) = wire s @ evs
              \<and> (\<forall>res \<in> set (subscribers (heap s0 r)). (res, End) \<notin> set evs))"
proof (cases cb)
  case (DeleteJob jid')
  then have ne: "jid' \<noteq> jid" using cb by simp
  have keep: "\<forall>t \<in> set (timers s). spares r jid (s\<lparr>jobs := (jobs s)(jid' := None)\<rparr>) (snd t)"
  proof
    fix t assume "t \<in> set (timers s)"
    with rest have "spares r jid s0 (snd t)" by blast
    then show "spares r jid (s\<lparr>jobs := (jobs s)(jid' := None)\<rparr>) (snd t)"
      using h by (cases "snd t") simp_all
  qed
  show ?thesis using DeleteJob ne j h keep by simp
next
  case (CloseSubscribers r' jid')
  then have ne: "r' \<noteq> r" "jid' \<noteq> jid"
    and dj: "set (subscribers (heap s0 r')) \<inter> set (subscribers (heap s0 r)) = {}"
    using cb by simp_all
  let ?s1 = "run_callback cb s"
  have h1: "heap ?s1 = (heap s0)(r' := (heap s0 r')\<lparr>subscribers := []\<rparr>)"
    using CloseSubscribers h by simp
  have hr: "heap ?s1 r = heap s0 r" using h1 ne by simp
  have keep: "\<forall>t \<in> set (timers ?s1). spares r jid ?s1 (snd t)"
  proof
    fix t assume t: "t \<in> set (timers ?s1)"
    then consider "t \<in> set (timers s)" | "snd t = DeleteJob jid'"
      using CloseSubscribers by auto
    then show "spares r jid ?s1 (snd t)"
    proof cases
      case 1
      with rest have sp: "spares r jid s0 (snd t)" by blast
      show ?thesis
      proof (cases "snd t")
        case (DeleteJob j')
        with sp show ?thesis by simp
      next
        case (CloseSubscribers r'' j'')
        with sp have "r'' \<noteq> r" "j'' \<noteq> jid"
          "set (subscribers (heap s0 r'')) \<inter> set (subscribers (heap s0 r)) = {}" by simp_all
        then show ?thesis using CloseSubscribers h1 ne by (cases "r'' = r'") simp_all
      qed
    next
      case 2
      then show ?thesis using ne by simp
    qed
  qed
  have w: "wire ?s1 = wire s @ map (\<lambda>res. (res, End)) (subscribers (heap s0 r'))"
    using CloseSubscribers h by simp
  have "\<forall>res \<in> set (subscribers (heap s0 r)).
          (res, End) \<notin> set (map (\<lambda>res. (res, End)) (subscribers (heap s0 r')))"
    using dj by auto
  with w have "\<exists>evs. wire ?s1 = wire s @ evs
                 \<and> (\<forall>res \<in> set (subscribers (heap s0 r)). (res, End) \<notin> set evs)"
    by blast
  moreover have "jobs ?s1 jid = Some r" using CloseSubscribers j by simp
  ultimately show ?thesis using hr keep by blast
qed

lemma spares_loop_step:
  assumes j: "jobs s jid = Some r"
      and sp: "\<forall>t \<in> set (timers s). spares r jid s (snd t)"
  shows "jobs (loop_step e s) jid = Some r
       \<and> heap (loop_step e s) r = heap s r
       \<and> (\<forall>t \<in> set (timers (loop_step e s)). spares r jid (loop_step e s) (snd t))
       \<and> (\<exists>evs. wire (loop_step e s) = wire s @ evs
              \<and> (\<forall>res \<in> set (subscribers (heap s r)). (res, End) \<notin> set evs))"
proof (cases e)
  case (Elapse d)
  have "\<forall>t \<in> set (timers s). spares r jid (advance d s) (snd t)"
  proof
    fix t assume "t \<in> set (timers s)"
    with sp have "spares r jid s (snd t)" by blast
    then show "spares r jid (advance d s) (snd t)"
      by (cases "snd t") (simp_all add: advance_def)
  qed
  then show ?thesis using Elapse j by (simp add: advance_def)
next
  case (Run i)
  show ?thesis
  proof (cases "fire i s")
    case None
    then show ?thesis using Run j sp by simp
  next
    case (Some s1)
    let ?s = "s\<lparr>timers := take i (timers s) @ drop (Suc i) (timers s)\<rparr>"
    from Some have i: "i < length (timers s)"
      and s1: "s1 = run_callback (snd (timers s ! i)) ?s"
      by (auto simp: fire_def split: if_splits)
    have cb: "spares r jid s (snd (timers s ! i))" using sp i by simp
    have rest: "\<forall>t \<in> set (timers ?s). spares r jid s (snd t)"
      using sp by (auto dest: in_set_takeD in_set_dropD)
    from spares_run_callback [of ?s jid r s "snd (timers s ! i)", OF _ cb rest] j
    show ?thesis using Run Some s1 by simp
  qed
qed

lemma spares_event_loop:
  assumes "jobs s jid = Some r"
      and "\<forall>t \<in> set (timers s). spares r jid s (snd t)"
  shows "jobs (event_loop es s) jid = Some r
       \<and> heap (event_loop es s) r = heap s r
       \<and> (\<exists>evs. wire (event_loop es s) = wire s @ evs
              \<and> (\<forall>res \<in> set (subscribers (heap s r)). (res, End) \<notin> set evs))"
  using assms
proof (induction es arbitrary: s)
  case Nil
  then show ?case by simp
next
  case (Cons e es)
  let ?s1 = "loop_step e s"
  from spares_loop_step [OF Cons.prems, of e]
  have j1: "jobs ?s1 jid = Some r" and h1: "heap ?s1 r = heap s r"
    and sp1: "\<forall>t \<in> set (timers ?s1). spares r jid ?s1 (snd t)"
    and w1: "\<exists>evs. wire ?s1 = wire s @ evs
               \<and> (\<forall>res \<in> set (subscribers (heap s r)). (res, End) \<notin> set evs)"
    by blast+
  from w1 obtain e1 where e1: "wire ?s1 = wire s @ e1"
    "\<forall>res \<in> set (subscribers (heap s r)). (res, End) \<notin> set e1" by blast
  from Cons.IH [OF j1 sp1]
  have j2: "jobs (event_loop es ?s1) jid = Some r"
    and h2: "heap (event_loop es ?s1) r = heap ?s1 r"
    and w2: "\<exists>evs. wire (event_loop es ?s1) = wire ?s1 @ evs
               \<and> (\<forall>res \<in> set (subscribers (heap ?s1 r)). (res, End) \<notin> set evs)"
    by blast+
  from w2 obtain e2 where e2: "wire (event_loop es ?s1) = wire ?s1 @ e2"
    "\<forall>res \<in> set (subscribers (heap ?s1 r)). (res, End) \<notin> set e2" by blast
  have "wire (event_loop es ?s1) = wire s @ (e1 @ e2)
          \<and> (\<forall>res \<in> set (subscribers (heap s r)). (res, End) \<notin> set (e1 @ e2))"
    using e1 e2 h1 by simp
  then have "\<exists>evs. wire (event_loop es ?s1) = wire s @ evs
               \<and> (\<forall>res \<in> set (subscribers (heap s r)). (res, End) \<notin> set evs)"
    by blast
  then show ?case using j2 h2 h1 by simp
qed

text \<open>
  Claim C10. When \<open>POST /convert\<close> answers with status 500, which only its \<open>catch\<close>
  block does, and the request carries a truthy job id, then after the request the job
  is in the registry with progress 100 and message \<open>Error\<close>, and the last thing the
  handler wrote is the event \<open>{progress: 100, message: 'Error'}\<close>, once to each
  subscriber of the job; what it wrote before closes no channel. The handler has not
  called \<open>completeJob\<close>: the status is \<open>Pending\<close> when the job is new, and what it was
  before otherwise, the subscriber set is as it was, and no timer was set. So, when no
  callback pending from before concerns the job, then whatever time passes and whichever
  timers run, the job stays in the registry, its object (status, subscribers, progress,
  message) stays as the handler left it, and no \<open>res.end()\<close> reaches a subscriber of
  the job.
\<close>

theorem conversion_failure_spec:
  assumes "convert_endpoint env req st = (Json 500 m, st')" and "truthy (req_jobId req)"
  shows "\<exists>r evs.
           jobs st' (the (req_jobId req)) = Some r
         \<and> progress (heap st' r) = 100
         \<and> message (heap st' r) = js ''Error''
         \<and> status (heap st' r)
             = (case jobs st (the (req_jobId req)) of
                  None \<Rightarrow> Pending | Some r0 \<Rightarrow> status (heap st r0))
         \<and> subscribers (heap st' r)
             = (case jobs st (the (req_jobId req)) of
                  None \<Rightarrow> [] | Some r0 \<Rightarrow> subscribers (heap st r0))
         \<and> timers st' = timers st
         \<and> wire st' = wire st @ evs
                         @ map (\<lambda>res. (res, Data 100 (js ''Error''))) (subscribers (heap st' r))
         \<and> closes evs = []
         \<and> closes (wire st') = closes (wire st)
         \<and> ((\<forall>t \<in> set (timers st'). spares r (the (req_jobId req)) st' (snd t)) \<longrightarrow>
              (\<forall>es. jobs (event_loop es st') (the (req_jobId req)) = Some r
                  \<and> heap (event_loop es st') r = heap st' r
                  \<and> (\<exists>evs'. wire (event_loop es st') = wire st' @ evs'
                         \<and> (\<forall>res \<in> set (subscribers (heap st' r)). (res, End) \<notin> set evs'))))"
proof -
  let ?jobId = "req_jobId req"
  let ?jid = "the ?jobId"
  let ?st0 = "snd (initJob ?jobId st)"
  let ?st1 = "updateProgress ?jobId 1 (Some (js ''Upload received'')) ?st0"
  have ne: "?jid \<noteq> []" using assms(2) by (cases ?jobId) simp_all
  have some: "?jobId = Some ?jid" using assms(2) by (cases ?jobId) simp_all
  obtain name where upl: "req_file req = Some name"
    using assms(1) by (cases "req_file req") (simp_all add: convert_endpoint_def)
  have valid: "req_format req \<in> set [Some (js ''html''), Some (js ''pdf''), Some (js ''docx'')]"
    using assms(1,2) upl by (auto simp: convert_endpoint_def Let_def split: if_splits)
  obtain res st2 where pipe: "convert_pipeline env name (the (req_format req)) ?jobId ?st1 = (res, st2)"
    by (cases "convert_pipeline env name (the (req_format req)) ?jobId ?st1")
  from assms(1) have final: "st' = updateProgress ?jobId 100 (Some (js ''Error'')) st2"
    using assms(2) upl valid pipe
    by (auto simp: convert_endpoint_def Let_def split: sum.splits dest!: convert_pipeline_sends)
  have "quiet ?st0 (snd (convert_pipeline env name (the (req_format req)) ?jobId ?st1))"
    by (intro quiet_convert_pipeline quiet_updateProgress quiet_refl)
  then have q2: "quiet ?st0 st2" by (simp add: pipe)
  then have q': "quiet ?st0 st'" unfolding final by (rule quiet_updateProgress)
  from initJob_created [OF assms(2), of st] obtain r where
    r: "jobs ?st0 ?jid = Some r"
       "status (heap ?st0 r) = (case jobs st ?jid of None \<Rightarrow> Pending | Some r0 \<Rightarrow> status (heap st r0))"
       "subscribers (heap ?st0 r) = (case jobs st ?jid of None \<Rightarrow> [] | Some r0 \<Rightarrow> subscribers (heap st r0))"
       "timers ?st0 = timers st" "wire ?st0 = wire st"
    by blast
  have j2: "jobs st2 ?jid = Some r" using quietD(1) [OF q2] r(1) by simp
  have j': "jobs st' ?jid = Some r" using quietD(1) [OF q'] r(1) by simp
  have e: "js ''Error'' \<noteq> []" by (simp add: js_def)
  have fin: "st' = updateProgress (Some ?jid) 100 (Some (js ''Error'')) st2"
    using final some by simp
  have upd: "progress (heap st' r) = 100" "message (heap st' r) = js ''Error''"
    "subscribers (heap st' r) = subscribers (heap st2 r)"
    "wire st' = wire st2 @ map (\<lambda>res. (res, Data 100 (js ''Error''))) (subscribers (heap st2 r))"
    unfolding fin by (simp_all add: updateProgress_existing [OF j2 ne] e)
  from quietD(5) [OF q2] r(5) obtain evs where
    evs: "wire st2 = wire st @ evs" "closes evs = []" by auto
  have w: "wire st' = wire st @ evs
             @ map (\<lambda>res. (res, Data 100 (js ''Error''))) (subscribers (heap st' r))"
    using upd(3,4) evs(1) by simp
  have cl: "closes (wire st') = closes (wire st)"
    using w evs(2) by (simp add: closes_append closes_data)
  have loop: "(\<forall>t \<in> set (timers st'). spares r ?jid st' (snd t)) \<longrightarrow>
              (\<forall>es. jobs (event_loop es st') ?jid = Some r
                  \<and> heap (event_loop es st') r = heap st' r
                  \<and> (\<exists>evs'. wire (event_loop es st') = wire st' @ evs'
                         \<and> (\<forall>res \<in> set (subscribers (heap st' r)). (res, End) \<notin> set evs')))"
    using spares_event_loop [OF j'] by blast
  have "jobs st' ?jid = Some r
         \<and> progress (heap st' r) = 100
         \<and> message (heap st' r) = js ''Error''
         \<and> status (heap st' r)
             = (case jobs st ?jid of None \<Rightarrow> Pending | Some r0 \<Rightarrow> status (heap st r0))
         \<and> subscribers (heap st' r)
             = (case jobs st ?jid of None \<Rightarrow> [] | Some r0 \<Rightarrow> subscribers (heap st r0))
         \<and> timers st' = timers st
         \<and> wire st' = wire st @ evs
                         @ map (\<lambda>res. (res, Data 100 (js ''Error''))) (subscribers (heap st' r))
         \<and> closes evs = []
         \<and> closes (wire st') = closes (wire st)"
    using upd(1,2) quietD(2,3,4) [OF q'] r(2,3,4) j' w evs(2) cl by simp
  with loop show ?thesis by blast
qed

theorem conversion_failure_spec_witness:
  "fst (convert_endpoint failing_parser pdf_request one_subscriber)
     = Json 500 (js ''Conversion failed: parse error'')
   \<and> truthy (req_jobId pdf_request)
   \<and> jobs (snd (convert_endpoint failing_parser pdf_request one_subscriber)) (js ''j1'') = Some 0
   \<and> progress (heap (snd (convert_endpoint failing_parser pdf_request one_subscriber)) 0) = 100
   \<and> message (heap (snd (convert_endpoint failing_parser pdf_request one_subscriber)) 0) = js ''Error''
   \<and> status (heap (snd (convert_endpoint failing_parser pdf_request one_subscriber)) 0) = Pending
   \<and> subscribers (heap (snd (convert_endpoint failing_parser pdf_request one_subscriber)) 0) = [7]
   \<and> timers (snd (convert_endpoint failing_parser pdf_request one_subscriber)) = []
   \<and> wire (snd (convert_endpoint failing_parser pdf_request one_subscriber))
       = wire one_subscriber
         @ [(7, Data 1 (js ''Upload received'')), (7, Data 5 (js ''Reading file'')),
            (7, Data 1 (js ''Starting''))]
         @ [(7, Data 100 (js ''Error''))]
   \<and> jobs (event_loop [Elapse 250, Run 0, Elapse 60000, Run 0]
              (snd (convert_endpoint failing_parser pdf_request one_subscriber))) (js ''j1'') = Some 0
   \<and> status (heap (event_loop [Elapse 250, Run 0, Elapse 60000, Run 0]
              (snd (convert_endpoint failing_parser pdf_request one_subscriber))) 0) = Pending
   \<and> subscribers (heap (event_loop [Elapse 250, Run 0, Elapse 60000, Run 0]
              (snd (convert_endpoint failing_parser pdf_request one_subscriber))) 0) = [7]
   \<and> (7, End) \<notin> set (drop (length (wire (snd (convert_endpoint failing_parser pdf_request one_subscriber))))
                          (wire (event_loop [Elapse 250, Run 0, Elapse 60000, Run 0]
                             (snd (convert_endpoint failing_parser pdf_request one_subscriber)))))"
proof -
  let ?out = "convert_endpoint failing_parser pdf_request one_subscriber"
  let ?es = "[Elapse 250, Run 0, Elapse 60000, Run 0]"
  let ?later = "event_loop ?es (snd ?out)"
  have resp: "fst ?out = Json 500 (js ''Conversion failed: parse error'')"
    by code_simp
  have t: "truthy (req_jobId pdf_request)"
    by code_simp
  have jid: "the (req_jobId pdf_request) = js ''j1''"
    by code_simp
  have eq: "?out = (Json 500 (js ''Conversion failed: parse error''), snd ?out)"
    using resp by (simp add: prod_eq_iff)
  have after: "jobs (snd ?out) (js ''j1'') = Some 0"
    "progress (heap (snd ?out) 0) = 100"
    "message (heap (snd ?out) 0) = js ''Error''"
    "status (heap (snd ?out) 0) = Pending"
    "subscribers (heap (snd ?out) 0) = [7]"
    "timers (snd ?out) = []"
    by code_simp+
  have w: "wire (snd ?out)
       = wire one_subscriber
         @ [(7, Data 1 (js ''Upload received'')), (7, Data 5 (js ''Reading file'')),
            (7, Data 1 (js ''Starting''))]
         @ [(7, Data 100 (js ''Error''))]"
    by code_simp
  from conversion_failure_spec [OF eq t] obtain r where
    r1: "jobs (snd ?out) (the (req_jobId pdf_request)) = Some r" and
    r2: "(\<forall>t \<in> set (timers (snd ?out)). spares r (the (req_jobId pdf_request)) (snd ?out) (snd t)) \<longrightarrow>
         (\<forall>es. jobs (event_loop es (snd ?out)) (the (req_jobId pdf_request)) = Some r
             \<and> heap (event_loop es (snd ?out)) r = heap (snd ?out) r
             \<and> (\<exists>evs'. wire (event_loop es (snd ?out)) = wire (snd ?out) @ evs'
                    \<and> (\<forall>res \<in> set (subscribers (heap (snd ?out) r)). (res, End) \<notin> set evs')))"
    by blast
  have r0: "r = 0" using r1 after(1) jid by simp
  from r2 have "\<forall>es. jobs (event_loop es (snd ?out)) (js ''j1'') = Some 0
             \<and> heap (event_loop es (snd ?out)) 0 = heap (snd ?out) 0
             \<and> (\<exists>evs'. wire (event_loop es (snd ?out)) = wire (snd ?out) @ evs'
                    \<and> (\<forall>res \<in> set (subscribers (heap (snd ?out) 0)). (res, End) \<notin> set evs'))"
    unfolding r0 jid after(6) by simp
  then have L: "jobs ?later (js ''j1'') = Some 0" "heap ?later 0 = heap (snd ?out) 0"
    "\<exists>evs'. wire ?later = wire (snd ?out) @ evs'
        \<and> (\<forall>res \<in> set (subscribers (heap (snd ?out) 0)). (res, End) \<notin> set evs')"
    by blast+
  from L(3) after(5) obtain evs' where "wire ?later = wire (snd ?out) @ evs'" "(7, End) \<notin> set evs'"
    by auto
  then have noend: "(7, End) \<notin> set (drop (length (wire (snd ?out))) (wire ?later))"
    by simp
  have later: "status (heap ?later 0) = Pending" "subscribers (heap ?later 0) = [7]"
    using L(2) after(4,5) by simp_all
  show ?thesis
    using resp t after w L(1) later noend
    by - (intro conjI; assumption)
qed

text \<open>
  Claim C5 does not hold of the code. The handler calls \<open>initJob\<close> and
  \<open>updateProgress(jobId, 1, 'Upload received')\<close> before it checks the format, so a
  request with the unsupported format \<open>txt\<close> and the job id \<open>j1\<close> is answered with
  status 400 and yet creates job \<open>j1\<close> in an empty registry, with progress 1; when the
  job exists already, its progress and message are overwritten and the event is written
  to its subscriber. (The check for a missing file, in contrast, comes before.)
\<close>

theorem invalid_format_creates_job:
  "fst (convert_endpoint env txt_request empty_tracker) = Json 400 (js ''Invalid format'')
   \<and> jobs empty_tracker (js ''j1'') = None
   \<and> jobs (snd (convert_endpoint env txt_request empty_tracker)) (js ''j1'') = Some 0
   \<and> progress (heap (snd (convert_endpoint env txt_request empty_tracker)) 0) = 1
   \<and> message (heap (snd (convert_endpoint env txt_request empty_tracker)) 0) = js ''Upload received''
   \<and> status (heap (snd (convert_endpoint env txt_request empty_tracker)) 0) = Pending
   \<and> timers (snd (convert_endpoint env txt_request empty_tracker)) = []
   \<and> fst (convert_endpoint env txt_request one_subscriber) = Json 400 (js ''Invalid format'')
   \<and> progress (heap one_subscriber 0) = 0
   \<and> progress (heap (snd (convert_endpoint env txt_request one_subscriber)) 0) = 1
   \<and> wire (snd (convert_endpoint env txt_request one_subscriber))
       = wire one_subscriber @ [(7, Data 1 (js ''Upload received''))]"
  by code_simp

end
